theory Spec2Isabelle
  imports Complex_Main "HOL-Library.AList"
begin

section \<open>Floating-point products\<close>

text \<open>
  A Python float is modelled as a real number, and arithmetic on floats as exact, with one
  exception: the two products that \<^verbatim>\<open>verdict\<close> compares a median with. A median that lies
  on a band boundary is classified by the product as the machine computes it, so these
  products are rounded as the machine rounds them: to the nearest binary64 number, a tie
  going to the even significand. \<open>round_double\<close> is that rounding for finite results, the
  subnormal range included; the IEEE values NaN and infinity are not values of the model.
  \<open>ilog2 x\<close> is the binary exponent of a positive \<open>x\<close>, the integer \<open>e\<close> with
  \<open>2 ^ e \<le> x < 2 ^ (e + 1)\<close>.
\<close>

definition round_half_even :: "real \<Rightarrow> int" where
  "round_half_even x =
     (let f = \<lfloor>x\<rfloor>; d = x - of_int f in
      if d < 1 / 2 then f else if 1 / 2 < d then f + 1 else if even f then f else f + 1)"

function ilog2 :: "real \<Rightarrow> int" where
  "ilog2 x =
     (if x \<le> 0 then 0
      else if x < 1 then ilog2 (2 * x) - 1
      else if 2 \<le> x then ilog2 (x / 2) + 1
      else 0)"
  by pat_completeness auto
termination
proof (relation "measure (\<lambda>x. if 1 \<le> x then nat \<lfloor>x\<rfloor> else nat \<lceil>1 / x\<rceil>)")
  show "wf (measure (\<lambda>x::real. if 1 \<le> x then nat \<lfloor>x\<rfloor> else nat \<lceil>1 / x\<rceil>))"
    by simp
next
  fix x :: real
  assume x: "\<not> x \<le> 0" "x < 1"
  show "(2 * x, x) \<in> measure (\<lambda>x. if 1 \<le> x then nat \<lfloor>x\<rfloor> else nat \<lceil>1 / x\<rceil>)"
  proof (cases "1 \<le> 2 * x")
    case True
    then have "\<lfloor>2 * x\<rfloor> = 1"
      using x by (intro floor_unique) simp_all
    moreover have "1 < 1 / x"
      using x by simp
    then have "2 \<le> \<lceil>1 / x\<rceil>"
      by linarith
    ultimately show ?thesis
      using x True by simp
  next
    case False
    then have "2 < 1 / x"
      using x by (simp add: field_simps)
    then have "1 / (2 * x) \<le> 1 / x - 1"
      by (simp add: field_simps)
    then have "\<lceil>1 / (2 * x)\<rceil> \<le> \<lceil>1 / x - 1\<rceil>"
      by (rule ceiling_mono)
    moreover have "0 < \<lceil>1 / x\<rceil>"
      using \<open>2 < 1 / x\<close> by linarith
    ultimately show ?thesis
      using x False by simp
  qed
next
  fix x :: real
  assume x: "\<not> x \<le> 0" "\<not> x < 1" "2 \<le> x"
  then have "x / 2 \<le> x - 1"
    by simp
  then have "\<lfloor>x / 2\<rfloor> \<le> \<lfloor>x - 1\<rfloor>"
    by (rule floor_mono)
  moreover have "0 < \<lfloor>x\<rfloor>"
    using x by linarith
  ultimately show "(x / 2, x) \<in> measure (\<lambda>x. if 1 \<le> x then nat \<lfloor>x\<rfloor> else nat \<lceil>1 / x\<rceil>)"
    using x by simp
qed

declare ilog2.simps [simp del]

text \<open>The exponent of the unit in the last place of the 53-bit significand, the least
  normal exponent being -1022.\<close>

definition ulp_exponent :: "real \<Rightarrow> int" where
  "ulp_exponent x = max (ilog2 \<bar>x\<bar>) (- 1022) - 52"

definition round_double :: "real \<Rightarrow> real" where
  "round_double x =
     of_int (round_half_even (x / 2 powi ulp_exponent x)) * 2 powi ulp_exponent x"

text \<open>The product of two floats.\<close>

definition float_mul :: "real \<Rightarrow> real \<Rightarrow> real" where
  "float_mul a b = round_double (a * b)"

section \<open>Settings\<close>

text \<open>
  The module constants of \<^verbatim>\<open>app.py\<close>. The bands are the floats that the literals
  \<^verbatim>\<open>0.90\<close> and \<^verbatim>\<open>1.10\<close> denote.
\<close>

definition INFLATION_RATE :: real where
  "INFLATION_RATE = 3 / 100"

definition FORECAST_YEARS :: nat where
  "FORECAST_YEARS = 5"

definition LOW_BAND :: real where
  "LOW_BAND = round_double (90 / 100)"

definition HIGH_BAND :: real where
  "HIGH_BAND = round_double (110 / 100)"

definition EXCLUDE_RELIABILITY :: "string set" where
  "EXCLUDE_RELIABILITY = {''LOW''}"

section \<open>Text\<close>

text \<open>
  A Python \<^verbatim>\<open>str\<close> is modelled as a \<^typ>\<open>string\<close> of ASCII characters. The character
  classes are those of Python on ASCII: \<^verbatim>\<open>str.strip\<close> and the pattern \<^verbatim>\<open>\s\<close> take the
  ten characters 9 to 13 and 28 to 32 as whitespace, \<^verbatim>\<open>\d\<close> is a decimal digit,
  \<^verbatim>\<open>\w\<close> is a letter, a digit or the underscore.
\<close>

definition is_space :: "char \<Rightarrow> bool" where
  "is_space c = (let k = (of_char c :: nat) in (9 \<le> k \<and> k \<le> 13) \<or> (28 \<le> k \<and> k \<le> 32))"

definition is_digit :: "char \<Rightarrow> bool" where
  "is_digit c = (let k = (of_char c :: nat) in 48 \<le> k \<and> k \<le> 57)"

definition is_upper :: "char \<Rightarrow> bool" where
  "is_upper c = (let k = (of_char c :: nat) in 65 \<le> k \<and> k \<le> 90)"

definition is_lower :: "char \<Rightarrow> bool" where
  "is_lower c = (let k = (of_char c :: nat) in 97 \<le> k \<and> k \<le> 122)"

text \<open>The class \<^verbatim>\<open>[A-Z]\<close> under \<^verbatim>\<open>re.I\<close>.\<close>

definition is_letter :: "char \<Rightarrow> bool" where
  "is_letter c = (is_upper c \<or> is_lower c)"

definition is_word :: "char \<Rightarrow> bool" where
  "is_word c = (is_letter c \<or> is_digit c \<or> c = CHR ''_'')"

definition upper_char :: "char \<Rightarrow> char" where
  "upper_char c = (if is_lower c then char_of (of_char c - (32 :: nat)) else c)"

text \<open>\<^verbatim>\<open>s.upper()\<close>, \<^verbatim>\<open>s.strip()\<close> and \<^verbatim>\<open>s.replace("  ", " ")\<close>. The replacement
  scans from the left and does not look again at what it has replaced.\<close>

definition upper :: "string \<Rightarrow> string" where
  "upper s = map upper_char s"

definition strip :: "string \<Rightarrow> string" where
  "strip s = rev (dropWhile is_space (rev (dropWhile is_space s)))"

fun replace_2sp :: "string \<Rightarrow> string" where
  "replace_2sp (a # b # s) =
     (if a = CHR '' '' \<and> b = CHR '' '' then CHR '' '' # replace_2sp s
      else a # replace_2sp (b # s))"
| "replace_2sp s = s"

text \<open>The expression \<^verbatim>\<open>postcode.strip().upper().replace("  ", " ")\<close>, which both
  \<^verbatim>\<open>parse_district\<close> and \<^verbatim>\<open>derive_sector_from_postcode\<close> apply to their argument.\<close>

definition normalise :: "string \<Rightarrow> string" where
  "normalise postcode = replace_2sp (upper (strip postcode))"

section \<open>Postal locator\<close>

text \<open>
  \<open>consume P k s\<close> reads exactly \<open>k\<close> characters of class \<open>P\<close> from the front of \<open>s\<close>
  and returns them with the rest, or fails.
\<close>

fun consume :: "(char \<Rightarrow> bool) \<Rightarrow> nat \<Rightarrow> string \<Rightarrow> (string \<times> string) option" where
  "consume P 0 s = Some ([], s)"
| "consume P (Suc k) [] = None"
| "consume P (Suc k) (c # s) =
     (if P c then map_option (\<lambda>(m, r). (c # m, r)) (consume P k s) else None)"

text \<open>
  \<^verbatim>\<open>POSTCODE_RE = ^\s*([A-Z]{1,2}\d{1,2}[A-Z]?)\s*\d[A-Z]{2}\s*$\<close> with \<^verbatim>\<open>re.I\<close>.
  \<open>postcode_try i j k s\<close> is one attempt of the matcher, with \<open>i\<close> letters, \<open>j\<close> digits
  and \<open>k\<close> letters in the group. A run \<^verbatim>\<open>\s*\<close> is followed by a letter or a digit, so it
  takes all the whitespace there is; the last \<^verbatim>\<open>\s*$\<close> asks that only whitespace is left.
  The result is group 1.
\<close>

definition postcode_try :: "nat \<Rightarrow> nat \<Rightarrow> nat \<Rightarrow> string \<Rightarrow> string option" where
  "postcode_try i j k s =
     (case consume is_letter i (dropWhile is_space s) of None \<Rightarrow> None | Some (g1, r1) \<Rightarrow>
      case consume is_digit j r1 of None \<Rightarrow> None | Some (g2, r2) \<Rightarrow>
      case consume is_letter k r2 of None \<Rightarrow> None | Some (g3, r3) \<Rightarrow>
      case consume is_digit 1 (dropWhile is_space r3) of None \<Rightarrow> None | Some (d, r4) \<Rightarrow>
      case consume is_letter 2 r4 of None \<Rightarrow> None | Some (l, r5) \<Rightarrow>
      if list_all is_space r5 then Some (g1 @ g2 @ g3) else None)"

text \<open>The first attempt that succeeds, in the order in which a backtracking matcher with
  greedy quantifiers makes them: the longest count first, the last quantifier giving way
  first.\<close>

fun first_some :: "('a \<Rightarrow> 'b option) \<Rightarrow> 'a list \<Rightarrow> 'b option" where
  "first_some f [] = None"
| "first_some f (x # xs) = (case f x of Some y \<Rightarrow> Some y | None \<Rightarrow> first_some f xs)"

definition POSTCODE_RE_match :: "string \<Rightarrow> string option" where
  "POSTCODE_RE_match s =
     first_some (\<lambda>(i, j, k). postcode_try i j k s)
       [(2, 2, 1), (2, 2, 0), (2, 1, 1), (2, 1, 0), (1, 2, 1), (1, 2, 0), (1, 1, 1), (1, 1, 0)]"

definition parse_district :: "string \<Rightarrow> string option" where
  "parse_district postcode = POSTCODE_RE_match (normalise postcode)"

text \<open>
  \<^verbatim>\<open>re.search(r"\b(\d)[A-Z]{2}\b", pc)\<close>, without \<^verbatim>\<open>re.I\<close>. \<open>word_boundary p q\<close> is
  \<^verbatim>\<open>\b\<close> between the characters \<open>p\<close> and \<open>q\<close>, \<open>None\<close> standing for an end of the text.
  \<open>inward_search p s\<close> scans \<open>s\<close> from the left, \<open>p\<close> the character before it, and returns
  group 1 of the first match.
\<close>

definition word_boundary :: "char option \<Rightarrow> char option \<Rightarrow> bool" where
  "word_boundary p q =
     ((case p of None \<Rightarrow> False | Some c \<Rightarrow> is_word c) \<noteq>
      (case q of None \<Rightarrow> False | Some c \<Rightarrow> is_word c))"

fun inward_at :: "char option \<Rightarrow> string \<Rightarrow> bool" where
  "inward_at p (d # a # b # s) =
     (word_boundary p (Some d) \<and> is_digit d \<and> is_upper a \<and> is_upper b \<and>
      word_boundary (Some b) (case s of [] \<Rightarrow> None | c # _ \<Rightarrow> Some c))"
| "inward_at p s = False"

fun inward_search :: "char option \<Rightarrow> string \<Rightarrow> char option" where
  "inward_search p [] = None"
| "inward_search p (c # s) = (if inward_at p (c # s) then Some c else inward_search (Some c) s)"

definition derive_sector_from_postcode :: "string \<Rightarrow> string \<Rightarrow> string option" where
  "derive_sector_from_postcode postcode district =
     (case inward_search None (normalise postcode) of
        None \<Rightarrow> None
      | Some d \<Rightarrow> Some (district @ '' '' @ [d]))"

text \<open>
  The first steps of \<^verbatim>\<open>search\<close>: the three error pages, and on success the echoed text,
  the district and the sector. The argument is \<^verbatim>\<open>request.args.get("postcode")\<close>, which is
  \<^verbatim>\<open>None\<close> when the query has no such parameter. The errors stand for the messages
  "Enter a postcode.", "Invalid postcode format (try e.g., E14 9AZ)." and
  "Could not derive sector from postcode.".
\<close>

datatype error = EmptyInput | InvalidFormat | SectorDerivationFailed

definition search_locate :: "string option \<Rightarrow> error + (string \<times> string \<times> string)" where
  "search_locate arg =
     (let pc = strip (case arg of None \<Rightarrow> [] | Some s \<Rightarrow> s) in
      if pc = [] then Inl EmptyInput
      else (case parse_district pc of
        None \<Rightarrow> Inl InvalidFormat
      | Some district \<Rightarrow>
          if district = [] then Inl InvalidFormat
          else (case derive_sector_from_postcode pc district of
            None \<Rightarrow> Inl SectorDerivationFailed
          | Some sector \<Rightarrow>
              if sector = [] then Inl SectorDerivationFailed
              else Inr (pc, district, sector))))"

section \<open>Dataset store\<close>

text \<open>
  A cell of a numeric column as \<^verbatim>\<open>pd.read_csv\<close> delivers it: \<open>Num x\<close> is content that
  \<^verbatim>\<open>pd.to_numeric(..., errors="coerce")\<close> reads as the number \<open>x\<close>, \<open>Txt s\<close> is text that
  it cannot read as a number, \<open>NA\<close> is a missing value.
\<close>

datatype cell = Num real | Txt string | NA

fun to_numeric :: "cell \<Rightarrow> real option" where
  "to_numeric (Num x) = Some x"
| "to_numeric (Txt s) = None"
| "to_numeric NA = None"

text \<open>A date as \<^verbatim>\<open>pd.to_datetime\<close> delivers it: year, month and day; \<^verbatim>\<open>.dt.year\<close>
  reads the year.\<close>

datatype timestamp = Timestamp int nat nat

fun dt_year :: "timestamp \<Rightarrow> int" where
  "dt_year (Timestamp y m d) = y"

text \<open>
  One row of the CSV file, under the column names of the source. A text column holds
  \<open>None\<close> for a missing value and \<open>Some s\<close> for a cell that \<^verbatim>\<open>astype(str)\<close> renders as
  \<open>s\<close>; \<open>Period_End\<close> holds what \<^verbatim>\<open>pd.to_datetime(..., errors="coerce")\<close> makes of the
  cell, \<open>None\<close> being \<^verbatim>\<open>NaT\<close>.
\<close>

record charge_record =
  Postcode :: "string option"
  Sector :: "string option"
  Reliability :: "string option"
  Annual :: cell
  Monthly :: cell
  Psf :: cell
  Psm :: cell
  Period_End :: "timestamp option"
  Vintage_Year :: cell

text \<open>\<^verbatim>\<open>astype(str)\<close> renders a missing value as the text \<^verbatim>\<open>nan\<close>.\<close>

definition astype_str :: "string option \<Rightarrow> string" where
  "astype_str v = (case v of None \<Rightarrow> ''nan'' | Some s \<Rightarrow> s)"

text \<open>A row of the loaded frame \<^verbatim>\<open>df\<close>: the CSV row and the two columns that the
  module adds, \<^verbatim>\<open>_rel_clean\<close> and \<^verbatim>\<open>_year\<close>.\<close>

record row = charge_record +
  rel_clean :: string
  row_year :: "real option"

text \<open>
  The load: \<^verbatim>\<open>_rel_clean\<close> from the reliability column; \<^verbatim>\<open>_year\<close> from the vintage
  year, and from the year of the period end when the vintage year is a number in no row.
\<close>

definition load_row :: "bool \<Rightarrow> charge_record \<Rightarrow> row" where
  "load_row fallback r =
     \<lparr> Postcode = Postcode r, Sector = Sector r, Reliability = Reliability r,
       Annual = Annual r, Monthly = Monthly r, Psf = Psf r, Psm = Psm r,
       Period_End = Period_End r, Vintage_Year = Vintage_Year r,
       rel_clean = upper (strip (astype_str (Reliability r))),
       row_year =
         (if fallback then map_option (\<lambda>t. real_of_int (dt_year t)) (Period_End r)
          else to_numeric (Vintage_Year r)) \<rparr>"

definition load :: "charge_record list \<Rightarrow> row list" where
  "load csv = map (load_row (list_all (\<lambda>r. to_numeric (Vintage_Year r) = None) csv)) csv"

definition apply_verified_filter :: "row list \<Rightarrow> row list" where
  "apply_verified_filter g = filter (\<lambda>r. rel_clean r \<notin> EXCLUDE_RELIABILITY) g"

text \<open>The sector slice of \<^verbatim>\<open>search\<close>.\<close>

definition sector_slice :: "row list \<Rightarrow> string \<Rightarrow> row list" where
  "sector_slice df sector = filter (\<lambda>r. upper (strip (astype_str (Sector r))) = sector) df"

section \<open>Aggregator\<close>

text \<open>The median of a non-empty list, as \<^verbatim>\<open>Series.median\<close> computes it: the middle
  value of the sorted list, or the mean of the two middle values.\<close>

definition median :: "real list \<Rightarrow> real" where
  "median xs =
     (let s = sort xs; k = length s in
      if odd k then s ! (k div 2) else (s ! (k div 2 - 1) + s ! (k div 2)) / 2)"

definition safe_median :: "cell list \<Rightarrow> real option" where
  "safe_median s = (let s2 = List.map_filter to_numeric s in
     if length s2 \<noteq> 0 then Some (median s2) else None)"

definition safe_count :: "cell list \<Rightarrow> nat" where
  "safe_count s = (let s2 = List.map_filter to_numeric s in length s2)"

record stats =
  n :: nat
  median_year :: "real option"
  median_month :: "real option"
  median_psf :: "real option"
  median_psm :: "real option"

definition compute_stats :: "row list \<Rightarrow> stats" where
  "compute_stats g =
     (let g2 = apply_verified_filter g in
      \<lparr> n = safe_count (map Annual g2),
        median_year = safe_median (map Annual g2),
        median_month = safe_median (map Monthly g2),
        median_psf = safe_median (map Psf g2),
        median_psm = safe_median (map Psm g2) \<rparr>)"

section \<open>Trend builder\<close>

text \<open>\<^verbatim>\<open>int(x)\<close> on a float: rounding towards zero.\<close>

definition py_int :: "real \<Rightarrow> int" where
  "py_int x = (if 0 \<le> x then \<lfloor>x\<rfloor> else \<lceil>x\<rceil>)"

record trend_point =
  year :: int
  median_year :: real
  n :: nat

text \<open>The loop of \<^verbatim>\<open>compute_trend_by_year\<close> over the sorted years.\<close>

fun trend_rows :: "row list \<Rightarrow> real list \<Rightarrow> trend_point list" where
  "trend_rows g2 [] = []"
| "trend_rows g2 (yr # yrs) =
     (let gy = filter (\<lambda>r. row_year r = Some yr) g2;
          med = safe_median (map Annual gy);
          cnt = safe_count (map Annual gy)
      in (case med of
            None \<Rightarrow> []
          | Some m \<Rightarrow> [\<lparr> year = py_int yr, median_year = m, n = cnt \<rparr>])
         @ trend_rows g2 yrs)"

definition compute_trend_by_year :: "row list \<Rightarrow> trend_point list" where
  "compute_trend_by_year g =
     (let g2 = filter (\<lambda>r. row_year r \<noteq> None) (apply_verified_filter g) in
      if g2 = [] then []
      else trend_rows g2 (sort (remdups (List.map_filter row_year g2))))"

record trend_point_yoy = trend_point +
  yoy :: "real option"

text \<open>The loop of \<^verbatim>\<open>add_yoy\<close>, \<open>prev\<close> the median of the row before.\<close>

fun add_yoy_from :: "real option \<Rightarrow> trend_point list \<Rightarrow> trend_point_yoy list" where
  "add_yoy_from prev [] = []"
| "add_yoy_from prev (r # trend_list) =
     \<lparr> year = year r, median_year = trend_point.median_year r, n = trend_point.n r,
       yoy =
         (case prev of
            None \<Rightarrow> None
          | Some p \<Rightarrow>
              if p \<noteq> 0 then Some (((trend_point.median_year r - p) / p) * 100) else None) \<rparr>
     # add_yoy_from (Some (trend_point.median_year r)) trend_list"

definition add_yoy :: "trend_point list \<Rightarrow> trend_point_yoy list" where
  "add_yoy trend_list = add_yoy_from None trend_list"

section \<open>Verdict and forecast\<close>

text \<open>\<open>None\<close> is Python's \<^verbatim>\<open>None\<close>; the result of \<^verbatim>\<open>verdict\<close> is the string that the
  source returns.\<close>

definition verdict :: "real option \<Rightarrow> real option \<Rightarrow> string" where
  "verdict sector_med london_med =
     (case (sector_med, london_med) of
        (Some s, Some l) \<Rightarrow>
          if s \<le> float_mul l LOW_BAND then ''Low''
          else if s \<le> float_mul l HIGH_BAND then ''Fair''
          else ''High''
      | _ \<Rightarrow> ''N/A'')"

definition forecast_year_value :: "real option \<Rightarrow> nat \<Rightarrow> real option" where
  "forecast_year_value base_yearly years =
     (case base_yearly of None \<Rightarrow> None | Some b \<Rightarrow> Some (b * ((1 + INFLATION_RATE) ^ years)))"

definition forecast_rows :: "real option \<Rightarrow> (nat \<times> real) list" where
  "forecast_rows base_yearly =
     (case base_yearly of
        None \<Rightarrow> []
      | Some b \<Rightarrow> map (\<lambda>i. (i, b * ((1 + INFLATION_RATE) ^ i))) [1 ..< FORECAST_YEARS + 1])"

section \<open>Benchmark chart\<close>

text \<open>
  The year alignment of \<^verbatim>\<open>search\<close>. A dictionary is an association list in insertion
  order; the comprehension \<^verbatim>\<open>{int(r["year"]): float(r["median_year"]) for r in ...}\<close>
  stores the rows one after the other, a later row replacing the value of an equal year.
\<close>

definition trend_dict :: "trend_point list \<Rightarrow> (int \<times> real) list" where
  "trend_dict trend =
     foldl (\<lambda>d r. AList.update (year r) (trend_point.median_year r) d) [] trend"

definition all_years :: "(int \<times> real) list \<Rightarrow> (int \<times> real) list \<Rightarrow> int list" where
  "all_years london_trend sector_trend =
     sort (remdups (map fst london_trend @ map fst sector_trend))"

text \<open>\<open>bench london_trend_raw sector_trend_raw\<close> is the triple \<^verbatim>\<open>all_years\<close>,
  \<^verbatim>\<open>bench_sector_vals\<close>, \<^verbatim>\<open>bench_london_vals\<close>.\<close>

definition bench ::
  "trend_point list \<Rightarrow> trend_point list \<Rightarrow> int list \<times> real option list \<times> real option list" where
  "bench london_trend_raw sector_trend_raw =
     (let london_trend = trend_dict london_trend_raw;
          sector_trend = trend_dict sector_trend_raw;
          ys = all_years london_trend sector_trend
      in (ys, map (map_of sector_trend) ys, map (map_of london_trend) ys))"

section \<open>Notions used in the statements\<close>

text \<open>\<open>year_group g yr\<close>: the annual amounts of the verified rows of \<open>g\<close> whose resolved
  year is \<open>yr\<close>.\<close>

definition year_group :: "row list \<Rightarrow> real \<Rightarrow> cell list" where
  "year_group g yr = map Annual (filter (\<lambda>r. row_year r = Some yr) (apply_verified_filter g))"

text \<open>\<open>retag t r\<close>: the CSV row \<open>r\<close> with the reliability tag \<open>t\<close> written in if it has
  none.\<close>

definition retag :: "string \<Rightarrow> charge_record \<Rightarrow> charge_record" where
  "retag t r = (if Reliability r = None then r\<lparr> Reliability := Some t \<rparr> else r)"

text \<open>\<open>counted r\<close>: the row \<open>r\<close> has no reliability tag, or a tag that, stripped and in
  upper case, is not excluded. \<open>counted_values f g\<close>: the numbers in the column \<open>f\<close> of the
  counted rows of \<open>g\<close>, in the order of the rows.\<close>

definition counted :: "'a charge_record_scheme \<Rightarrow> bool" where
  "counted r =
     (case Reliability r of None \<Rightarrow> True | Some t \<Rightarrow> upper (strip t) \<notin> EXCLUDE_RELIABILITY)"

definition counted_values :: "(row \<Rightarrow> cell) \<Rightarrow> row list \<Rightarrow> real list" where
  "counted_values f g = List.map_filter to_numeric (map f (filter counted g))"

section \<open>Example data\<close>

definition csv_row ::
  "string option \<Rightarrow> cell \<Rightarrow> cell \<Rightarrow> cell \<Rightarrow> timestamp option \<Rightarrow> charge_record" where
  "csv_row rel annual monthly vintage period_end =
     \<lparr> Postcode = Some ''E14 9AZ'', Sector = Some ''E14 9'', Reliability = rel,
       Annual = annual, Monthly = monthly, Psf = NA, Psm = NA,
       Period_End = period_end, Vintage_Year = vintage \<rparr>"

definition example_csv :: "charge_record list" where
  "example_csv =
     [csv_row (Some ''High'') (Num 1000) NA (Num 2021) (Some (Timestamp 2022 3 31)),
      csv_row None (Num 1200) NA (Num 2021) None,
      csv_row (Some '' low '') (Num 9000) (Num 750) (Num 2021) None,
      csv_row (Some ''Medium'') (Txt ''tbc'') NA (Num 2020) None,
      csv_row (Some ''High'') (Num 1500) NA NA (Some (Timestamp 2023 3 31)),
      csv_row (Some ''High'') (Num 900) NA (Num 2019) None]"

section \<open>Floating-point products: order and values\<close>

lemma powi_Suc: "(2::real) powi (k + 1) = 2 * 2 powi k"
  by (simp add: power_int_add)

lemma powi_pred: "(2::real) powi (k - 1) = 2 powi k / 2"
  by (simp add: power_int_diff)

lemma ilog2_bounds: "0 < x \<Longrightarrow> 2 powi ilog2 x \<le> x \<and> x < 2 powi (ilog2 x + 1)"
proof (induction x rule: ilog2.induct)
  case (1 x)
  show ?case
  proof (cases "x < 1")
    case True
    with "1.prems" have e: "ilog2 x = ilog2 (2 * x) - 1"
      by (subst ilog2.simps) simp
    from "1.IH"(1) "1.prems" True
    have "2 powi ilog2 (2 * x) \<le> 2 * x \<and> 2 * x < 2 powi (ilog2 (2 * x) + 1)"
      by simp
    then show ?thesis
      by (simp add: e powi_pred powi_Suc)
  next
    case False
    show ?thesis
    proof (cases "2 \<le> x")
      case True
      with "1.prems" False have e: "ilog2 x = ilog2 (x / 2) + 1"
        by (subst ilog2.simps) simp
      from "1.IH"(2) "1.prems" False True
      have "2 powi ilog2 (x / 2) \<le> x / 2 \<and> x / 2 < 2 powi (ilog2 (x / 2) + 1)"
        by simp
      then show ?thesis
        unfolding e
        using powi_Suc [of "ilog2 (x / 2)"] powi_Suc [of "ilog2 (x / 2) + 1"]
        by linarith
    next
      case x2: False
      with "1.prems" False have e: "ilog2 x = 0"
        by (subst ilog2.simps) simp
      show ?thesis
        using False x2 by (simp add: e)
    qed
  qed
qed

lemma ilog2_mono: "0 < x \<Longrightarrow> x \<le> y \<Longrightarrow> ilog2 x \<le> ilog2 y"
proof (rule ccontr)
  assume x: "0 < x" and xy: "x \<le> y" and n: "\<not> ilog2 x \<le> ilog2 y"
  then have "ilog2 y + 1 \<le> ilog2 x" by simp
  then have "(2::real) powi (ilog2 y + 1) \<le> 2 powi ilog2 x"
    by (intro power_int_increasing) simp_all
  also have "\<dots> \<le> x" using ilog2_bounds [OF x] by simp
  also have "\<dots> \<le> y" by (rule xy)
  also have "\<dots> < 2 powi (ilog2 y + 1)"
    using ilog2_bounds [of y] x xy by simp
  finally show False by simp
qed

lemma round_half_even_cases: "round_half_even x = \<lfloor>x\<rfloor> \<or> round_half_even x = \<lfloor>x\<rfloor> + 1"
  by (simp add: round_half_even_def Let_def)

lemma round_half_even_of_int: "round_half_even (of_int k) = k"
  by (simp add: round_half_even_def Let_def)

lemma round_half_even_ge: "of_int k \<le> x \<Longrightarrow> k \<le> round_half_even x"
proof -
  assume "of_int k \<le> x"
  then have "k \<le> \<lfloor>x\<rfloor>" by (simp add: le_floor_iff)
  with round_half_even_cases [of x] show ?thesis by auto
qed

lemma round_half_even_le: "x \<le> of_int k \<Longrightarrow> round_half_even x \<le> k"
proof (cases "x = of_int k")
  case True
  then show ?thesis by (simp add: round_half_even_of_int)
next
  case False
  assume "x \<le> of_int k"
  with False have "x < of_int k" by simp
  then have "\<lfloor>x\<rfloor> < k" by (simp add: floor_less_iff)
  with round_half_even_cases [of x] show ?thesis by auto
qed

lemma round_half_even_mono: "x \<le> y \<Longrightarrow> round_half_even x \<le> round_half_even y"
proof -
  assume xy: "x \<le> y"
  then have f: "\<lfloor>x\<rfloor> \<le> \<lfloor>y\<rfloor>" by (rule floor_mono)
  show ?thesis
  proof (cases "\<lfloor>x\<rfloor> = \<lfloor>y\<rfloor>")
    case True
    with xy show ?thesis
      by (auto simp: round_half_even_def Let_def)
  next
    case False
    with f have "\<lfloor>x\<rfloor> + 1 \<le> \<lfloor>y\<rfloor>" by simp
    with round_half_even_cases [of x] round_half_even_cases [of y] show ?thesis by auto
  qed
qed

lemma round_double_0: "round_double 0 = 0"
  by (simp add: round_double_def round_half_even_def)

lemma round_double_nonneg: "0 \<le> x \<Longrightarrow> 0 \<le> round_double x"
proof -
  assume "0 \<le> x"
  then have "of_int 0 \<le> x / 2 powi ulp_exponent x" by simp
  then have "0 \<le> round_half_even (x / 2 powi ulp_exponent x)"
    by (rule round_half_even_ge)
  then show ?thesis
    by (simp add: round_double_def)
qed

lemma round_double_mono_pos:
  assumes x: "0 < x" and xy: "x \<le> y"
  shows "round_double x \<le> round_double y"
proof -
  let ?ex = "ulp_exponent x" and ?ey = "ulp_exponent y"
  from x xy have y: "0 < y" by simp
  have il: "ilog2 x \<le> ilog2 y"
    using x xy by (rule ilog2_mono)
  then have e: "?ex \<le> ?ey"
    using x y by (simp add: ulp_exponent_def)
  show ?thesis
  proof (cases "?ex = ?ey")
    case True
    have "x / 2 powi ?ey \<le> y / 2 powi ?ey"
      using xy by (simp add: divide_right_mono)
    then have "round_half_even (x / 2 powi ?ey) \<le> round_half_even (y / 2 powi ?ey)"
      by (rule round_half_even_mono)
    then show ?thesis
      by (simp add: round_double_def True)
  next
    case False
    with e have lt: "?ex + 1 \<le> ?ey" by simp
    then have ey: "?ey + 52 = ilog2 y"
      using x y by (simp add: ulp_exponent_def max_def split: if_splits)
    have ix: "ilog2 x \<le> ?ex + 52"
      using x by (simp add: ulp_exponent_def)
    have "(2::real) powi (?ey + 52) \<le> y"
      using ilog2_bounds [OF y] by (simp add: ey)
    then have "(2::real) powi 52 * 2 powi ?ey \<le> y"
      by (simp add: power_int_add mult.commute)
    then have "of_int (2 ^ 52) \<le> y / 2 powi ?ey"
      by (simp add: pos_le_divide_eq)
    then have "2 ^ 52 \<le> round_half_even (y / 2 powi ?ey)"
      by (rule round_half_even_ge)
    then have "(2::real) ^ 52 \<le> of_int (round_half_even (y / 2 powi ?ey))"
      by (metis of_int_le_iff of_int_numeral of_int_power)
    then have "(2::real) ^ 52 * 2 powi ?ey \<le> round_double y"
      by (simp add: round_double_def)
    then have up: "(2::real) powi (?ey + 52) \<le> round_double y"
      by (simp add: power_int_add mult.commute)
    have "x < 2 powi (ilog2 x + 1)"
      using ilog2_bounds [OF x] by simp
    also have "\<dots> \<le> 2 powi (?ex + 53)"
      using ix by (intro power_int_increasing) simp_all
    finally have "x < 2 powi 53 * 2 powi ?ex"
      by (simp add: power_int_add mult.commute)
    then have "x / 2 powi ?ex \<le> of_int (2 ^ 53)"
      by (simp add: pos_divide_le_eq less_imp_le)
    then have "round_half_even (x / 2 powi ?ex) \<le> 2 ^ 53"
      by (rule round_half_even_le)
    then have "of_int (round_half_even (x / 2 powi ?ex)) \<le> (2::real) ^ 53"
      by (metis of_int_le_iff of_int_numeral of_int_power)
    then have "round_double x \<le> 2 ^ 53 * 2 powi ?ex"
      by (simp add: round_double_def)
    then have "round_double x \<le> 2 powi (?ex + 53)"
      by (simp add: power_int_add mult.commute)
    also have "\<dots> \<le> 2 powi (?ey + 52)"
      using lt by (intro power_int_increasing) simp_all
    finally show ?thesis
      using up by simp
  qed
qed

lemma round_double_mono_nonneg: "0 \<le> x \<Longrightarrow> x \<le> y \<Longrightarrow> round_double x \<le> round_double y"
proof (cases "x = 0")
  case True
  assume "x \<le> y"
  with True show ?thesis
    by (simp add: round_double_0 round_double_nonneg)
next
  case False
  assume "0 \<le> x" "x \<le> y"
  with False show ?thesis
    by (intro round_double_mono_pos) simp_all
qed


lemma ilog2_unique:
  assumes x: "0 < x" and lo: "2 powi e \<le> x" and hi: "x < 2 powi (e + 1)"
  shows "ilog2 x = e"
proof (rule antisym)
  show "ilog2 x \<le> e"
  proof (rule ccontr)
    assume "\<not> ilog2 x \<le> e"
    then have "e + 1 \<le> ilog2 x" by simp
    then have "(2::real) powi (e + 1) \<le> 2 powi ilog2 x"
      by (intro power_int_increasing) simp_all
    also have "\<dots> \<le> x" using ilog2_bounds [OF x] by simp
    finally show False using hi by simp
  qed
  show "e \<le> ilog2 x"
  proof (rule ccontr)
    assume "\<not> e \<le> ilog2 x"
    then have "ilog2 x + 1 \<le> e" by simp
    then have "(2::real) powi (ilog2 x + 1) \<le> 2 powi e"
      by (intro power_int_increasing) simp_all
    also have "\<dots> \<le> x" by (rule lo)
    finally show False using ilog2_bounds [OF x] by simp
  qed
qed

text \<open>The rounding of a number whose binary exponent \<open>e\<close> is known and normal.\<close>

lemma round_double_normal:
  assumes "2 powi e \<le> \<bar>x\<bar>" and "\<bar>x\<bar> < 2 powi (e + 1)" and "- 1022 \<le> e"
  shows "round_double x = of_int (round_half_even (x / 2 powi (e - 52))) * 2 powi (e - 52)"
proof -
  have "0 < (2::real) powi e" by simp
  with assms(1) have "0 < \<bar>x\<bar>" by linarith
  then have "ilog2 \<bar>x\<bar> = e"
    using assms(1,2) by (rule ilog2_unique)
  then have "ulp_exponent x = e - 52"
    using assms(3) by (simp add: ulp_exponent_def)
  then show ?thesis
    by (simp add: round_double_def)
qed

lemma band_values:
  "LOW_BAND = 8106479329266893 / 2 ^ 53"
  "HIGH_BAND = 4953959590107546 / 2 ^ 52"
proof -
  show "LOW_BAND = 8106479329266893 / 2 ^ 53"
    unfolding LOW_BAND_def
    by (subst round_double_normal [where e = "- 1"])
      (simp_all add: round_half_even_def Let_def power_int_minus)
  show "HIGH_BAND = 4953959590107546 / 2 ^ 52"
    unfolding HIGH_BAND_def
    by (subst round_double_normal [where e = 0])
      (simp_all add: round_half_even_def Let_def power_int_minus)
qed

lemma band_products_ordered: "0 \<le> r \<Longrightarrow> float_mul r LOW_BAND \<le> float_mul r HIGH_BAND"
  unfolding float_mul_def
  by (rule round_double_mono_nonneg) (simp_all add: band_values mult_left_mono)

lemma band_products_1000:
  "float_mul 1000 LOW_BAND = 900"
  "float_mul 1000 HIGH_BAND = 1100"
  "float_mul (- 1000) LOW_BAND = - 900"
  "float_mul (- 1000) HIGH_BAND = - 1100"
proof -
  show "float_mul 1000 LOW_BAND = 900"
    unfolding float_mul_def band_values
    by (subst round_double_normal [where e = 9])
      (simp_all add: round_half_even_def Let_def power_int_minus)
  show "float_mul 1000 HIGH_BAND = 1100"
    unfolding float_mul_def band_values
    by (subst round_double_normal [where e = 10])
      (simp_all add: round_half_even_def Let_def power_int_minus)
  show "float_mul (- 1000) LOW_BAND = - 900"
    unfolding float_mul_def band_values
    by (subst round_double_normal [where e = 9])
      (simp_all add: round_half_even_def Let_def power_int_minus)
  show "float_mul (- 1000) HIGH_BAND = - 1100"
    unfolding float_mul_def band_values
    by (subst round_double_normal [where e = 10])
      (simp_all add: round_half_even_def Let_def power_int_minus)
qed

text \<open>The floats nearest to 1002.3 and to 902.07, and the product of the first with the
  low band.\<close>

lemma tie_example:
  "round_double (10023 / 10) = 8816324036159078 / 2 ^ 43"
  "round_double (90207 / 100) = 7934691632543171 / 2 ^ 43"
  "float_mul (round_double (10023 / 10)) LOW_BAND = 7934691632543170 / 2 ^ 43"
proof -
  show a: "round_double (10023 / 10) = 8816324036159078 / 2 ^ 43"
    by (subst round_double_normal [where e = 9])
      (simp_all add: round_half_even_def Let_def power_int_minus)
  show "round_double (90207 / 100) = 7934691632543171 / 2 ^ 43"
    by (subst round_double_normal [where e = 9])
      (simp_all add: round_half_even_def Let_def power_int_minus)
  show "float_mul (round_double (10023 / 10)) LOW_BAND = 7934691632543170 / 2 ^ 43"
    unfolding float_mul_def band_values a
    by (subst round_double_normal [where e = 9])
      (simp_all add: round_half_even_def Let_def power_int_minus)
qed

section \<open>Verdict classifier\<close>

lemma verdict_some:
  "verdict (Some s) (Some l) =
     (if s \<le> float_mul l LOW_BAND then ''Low''
      else if s \<le> float_mul l HIGH_BAND then ''Fair'' else ''High'')"
  by (simp add: verdict_def)

lemma verdict_none: "verdict None m = ''N/A''" "verdict m None = ''N/A''"
  by (cases m; simp add: verdict_def)+

text \<open>
  Claim C1, as amended. Write \<open>r * 0.90\<close> and \<open>r * 1.10\<close> for the two products as the
  code computes them, \<open>float_mul r LOW_BAND\<close> and \<open>float_mul r HIGH_BAND\<close>. For every
  subject median \<open>s\<close> and reference median \<open>r\<close>, \<open>verdict\<close> is Low exactly when
  \<open>s \<le> r * 0.90\<close>, Fair exactly when \<open>r * 0.90 < s \<le> r * 1.10\<close>, and High exactly when \<open>s\<close>
  is above both products; for a reference median that is not negative this is
  \<open>s > r * 1.10\<close>. A subject median on a computed band boundary gets the lower class. The
  products for the reference 1000 are 900 and 1100, so \<open>verdict 900 1000\<close> is Low,
  \<open>verdict 901 1000\<close> is Fair and \<open>verdict 1101 1000\<close> is High. An undefined input gives
  N/A.
\<close>

theorem verdict_bands:
  "(verdict (Some s) (Some r) = ''Low'') = (s \<le> float_mul r LOW_BAND)
   \<and> (verdict (Some s) (Some r) = ''Fair'') =
       (float_mul r LOW_BAND < s \<and> s \<le> float_mul r HIGH_BAND)
   \<and> (verdict (Some s) (Some r) = ''High'') =
       (float_mul r LOW_BAND < s \<and> float_mul r HIGH_BAND < s)
   \<and> (0 \<le> r \<longrightarrow> (verdict (Some s) (Some r) = ''High'') = (float_mul r HIGH_BAND < s))
   \<and> verdict (Some (float_mul r LOW_BAND)) (Some r) = ''Low''
   \<and> verdict (Some (float_mul r HIGH_BAND)) (Some r) \<noteq> ''High''
   \<and> float_mul 1000 LOW_BAND = 900
   \<and> float_mul 1000 HIGH_BAND = 1100
   \<and> verdict (Some 900) (Some 1000) = ''Low''
   \<and> verdict (Some 901) (Some 1000) = ''Fair''
   \<and> verdict (Some 1101) (Some 1000) = ''High''
   \<and> verdict None m = ''N/A''
   \<and> verdict m None = ''N/A''"
proof -
  have low: "(verdict (Some s) (Some r) = ''Low'') = (s \<le> float_mul r LOW_BAND)"
    by (simp add: verdict_some)
  have fair: "(verdict (Some s) (Some r) = ''Fair'') =
         (float_mul r LOW_BAND < s \<and> s \<le> float_mul r HIGH_BAND)"
    by (simp add: verdict_some)
  have high: "(verdict (Some s) (Some r) = ''High'') =
         (float_mul r LOW_BAND < s \<and> float_mul r HIGH_BAND < s)"
    by (simp add: verdict_some)
  have nonneg: "0 \<le> r \<longrightarrow> (verdict (Some s) (Some r) = ''High'') = (float_mul r HIGH_BAND < s)"
  proof
    assume "0 \<le> r"
    then have "float_mul r LOW_BAND \<le> float_mul r HIGH_BAND"
      by (rule band_products_ordered)
    then show "(verdict (Some s) (Some r) = ''High'') = (float_mul r HIGH_BAND < s)"
      unfolding high by linarith
  qed
  have tie_low: "verdict (Some (float_mul r LOW_BAND)) (Some r) = ''Low''"
    by (simp add: verdict_some)
  have tie_high: "verdict (Some (float_mul r HIGH_BAND)) (Some r) \<noteq> ''High''"
    by (simp add: verdict_some)
  have e1: "verdict (Some 900) (Some 1000) = ''Low''"
    by (simp add: verdict_some band_products_1000)
  have e2: "verdict (Some 901) (Some 1000) = ''Fair''"
    by (simp add: verdict_some band_products_1000)
  have e3: "verdict (Some 1101) (Some 1000) = ''High''"
    by (simp add: verdict_some band_products_1000)
  show ?thesis
    by (intro conjI)
      (rule low fair high nonneg tie_low tie_high e1 e2 e3 band_products_1000 verdict_none)+
qed

theorem verdict_bands_witness:
  "(0::real) \<le> 1000 \<and> verdict (Some 1101) (Some 1000) = ''High''
   \<and> float_mul 1000 HIGH_BAND < 1101"
  using verdict_bands [of 1101 1000] by simp

text \<open>
  The claim as written has High exactly when \<open>s > r * 1.10\<close>, and Low exactly when
  \<open>s \<le> r * 0.90\<close>. With a negative reference median the Low test comes first: for
  \<open>s = r = -1000\<close> the subject is above \<open>r * 1.10 = -1100\<close>, computed or exact, and the
  verdict is Low. And the product that decides is the computed one: 902.07 is 90 percent
  of 1002.3, but for the floats nearest to these two numbers the computed product lies
  below the subject, and the verdict is Fair.
\<close>

theorem verdict_high_counterexample:
  "(- 1000 :: real) * (110 / 100) < - 1000
   \<and> float_mul (- 1000) HIGH_BAND < - 1000
   \<and> verdict (Some (- 1000)) (Some (- 1000)) = ''Low''
   \<and> verdict (Some (- 1000)) (Some (- 1000)) \<noteq> ''High''
   \<and> (90207 / 100 :: real) \<le> 10023 / 10 * (90 / 100)
   \<and> verdict (Some (round_double (90207 / 100))) (Some (round_double (10023 / 10))) = ''Fair''"
proof -
  have a: "verdict (Some (- 1000)) (Some (- 1000)) = ''Low''"
    by (simp add: verdict_some band_products_1000)
  have "float_mul (round_double (10023 / 10)) HIGH_BAND =
        round_double (8816324036159078 / 2 ^ 43 * (4953959590107546 / 2 ^ 52))"
    by (simp only: float_mul_def tie_example band_values)
  also have "\<dots> = 4848978219887493 / 2 ^ 42"
    by (subst round_double_normal [where e = 10])
      (simp_all add: round_half_even_def Let_def power_int_minus)
  finally have h: "float_mul (round_double (10023 / 10)) HIGH_BAND = 4848978219887493 / 2 ^ 42" .
  have b: "verdict (Some (round_double (90207 / 100))) (Some (round_double (10023 / 10))) = ''Fair''"
    by (simp only: verdict_some h tie_example(2,3)) simp
  have c: "(- 1000 :: real) * (110 / 100) < - 1000" "float_mul (- 1000) HIGH_BAND < - 1000"
    "(90207 / 100 :: real) \<le> 10023 / 10 * (90 / 100)"
    by (simp_all add: band_products_1000)
  have d: "verdict (Some (- 1000)) (Some (- 1000)) \<noteq> ''High''"
    by (simp add: a)
  show ?thesis
    by (intro conjI) (rule a b c d)+
qed

section \<open>Forecaster\<close>

lemma forecast_rows_some:
  "forecast_rows (Some b) =
     map (\<lambda>i. (i, b * ((1 + INFLATION_RATE) ^ i))) [1 ..< FORECAST_YEARS + 1]"
  by (simp add: forecast_rows_def)

lemma upt_1_6: "[Suc 0 ..< 6] = [1, 2, 3, 4, 5]"
  by (simp add: upt_rec)

text \<open>
  Claim C5. For a defined base value \<open>b\<close>, \<open>forecast_rows\<close> returns the pairs
  \<open>(i, b * (1 + rate) ^ i)\<close> for \<open>i\<close> from 1 to the horizon, in this order, with the rate
  0.03 and the horizon 5 of the settings. For the base 1000 the first pair is
  \<open>(1, 1030)\<close> and the fifth is year 5 with a value within 0.01 of 1159.27. For an undefined
  base the result is the empty list.
\<close>

theorem forecast_rows_compound:
  "forecast_rows (Some b) =
     [(1, b * (103 / 100) ^ 1), (2, b * (103 / 100) ^ 2), (3, b * (103 / 100) ^ 3),
      (4, b * (103 / 100) ^ 4), (5, b * (103 / 100) ^ 5)]
   \<and> forecast_rows (Some b) =
       map (\<lambda>i. (i, b * (1 + INFLATION_RATE) ^ i)) [1 ..< FORECAST_YEARS + 1]
   \<and> forecast_rows (Some 1000) ! 0 = (1, 1030)
   \<and> fst (forecast_rows (Some 1000) ! 4) = 5
   \<and> \<bar>snd (forecast_rows (Some 1000) ! 4) - 115927 / 100\<bar> < 1 / 100
   \<and> forecast_rows None = []"
proof -
  have a: "forecast_rows (Some b) =
     [(1, b * (103 / 100) ^ 1), (2, b * (103 / 100) ^ 2), (3, b * (103 / 100) ^ 3),
      (4, b * (103 / 100) ^ 4), (5, b * (103 / 100) ^ 5)]" for b
    by (simp add: forecast_rows_some FORECAST_YEARS_def INFLATION_RATE_def upt_1_6)
  have b: "forecast_rows None = []"
    by (simp add: forecast_rows_def)
  have c: "\<bar>snd (forecast_rows (Some 1000) ! 4) - 115927 / 100\<bar> < 1 / 100"
    by (simp add: a power_def)
  have d: "forecast_rows (Some 1000) ! 0 = (1, 1030)" "fst (forecast_rows (Some 1000) ! 4) = 5"
    by (simp_all add: a)
  show ?thesis
    using a [of b] b c d forecast_rows_some [of b] by simp
qed

section \<open>Year-over-year change\<close>

lemma length_add_yoy_from: "length (add_yoy_from p t) = length t"
  by (induction t arbitrary: p) simp_all

lemma truncate_add_yoy_from:
  "i < length t \<Longrightarrow> trend_point.truncate (add_yoy_from p t ! i) = t ! i"
proof (induction t arbitrary: p i)
  case Nil
  then show ?case by simp
next
  case (Cons r t)
  then show ?case
    by (cases i) (simp_all add: trend_point.truncate_def)
qed

lemma yoy_add_yoy_from_0:
  "yoy (add_yoy_from p (r # t) ! 0) =
     (case p of None \<Rightarrow> None
      | Some q \<Rightarrow> if q \<noteq> 0 then Some (((trend_point.median_year r - q) / q) * 100) else None)"
  by simp

lemma yoy_add_yoy_from_Suc:
  "Suc i < length t \<Longrightarrow>
   yoy (add_yoy_from p t ! Suc i) =
     (if trend_point.median_year (t ! i) = 0 then None
      else Some ((trend_point.median_year (t ! Suc i) - trend_point.median_year (t ! i))
                 / trend_point.median_year (t ! i) * 100))"
proof (induction t arbitrary: p i)
  case Nil
  then show ?case by simp
next
  case (Cons r t)
  show ?case
  proof (cases i)
    case 0
    with Cons.prems obtain r' t' where t: "t = r' # t'"
      by (cases t) auto
    show ?thesis
      using 0 by (simp add: t)
  next
    case (Suc j)
    with Cons.prems have "Suc j < length t" by simp
    from Cons.IH [OF this] show ?thesis
      using Suc by simp
  qed
qed

text \<open>
  Claim C4. \<open>add_yoy\<close> returns the points it was given, in the same order, each with a
  \<open>yoy\<close> field. The first point has no \<open>yoy\<close>. Every later point has
  \<open>(median - previous median) / previous median * 100\<close>, taken against the point just before
  it, and has no \<open>yoy\<close> when the median of that point is zero. The theorem holds for every
  list of points, sorted by year or not.
\<close>

theorem add_yoy_spec:
  "length (add_yoy t) = length t
   \<and> (\<forall>i < length t. trend_point.truncate (add_yoy t ! i) = t ! i)
   \<and> (t \<noteq> [] \<longrightarrow> yoy (add_yoy t ! 0) = None)
   \<and> (\<forall>i. Suc i < length t \<longrightarrow>
         yoy (add_yoy t ! Suc i) =
           (if trend_point.median_year (t ! i) = 0 then None
            else Some ((trend_point.median_year (t ! Suc i) - trend_point.median_year (t ! i))
                       / trend_point.median_year (t ! i) * 100)))"
proof -
  have "t \<noteq> [] \<longrightarrow> yoy (add_yoy t ! 0) = None"
    by (cases t) (simp_all add: add_yoy_def)
  then show ?thesis
    by (simp add: add_yoy_def length_add_yoy_from truncate_add_yoy_from yoy_add_yoy_from_Suc)
qed

text \<open>The example of the claim: the medians 1000, 1100 and 990 give no \<open>yoy\<close>, then 10,
  then -10 (computed off 1100).\<close>

theorem add_yoy_spec_witness:
  "map yoy (add_yoy
      [\<lparr>year = 2021, median_year = 1000, n = 1\<rparr>, \<lparr>year = 2022, median_year = 1100, n = 1\<rparr>,
       \<lparr>year = 2023, median_year = 990, n = 1\<rparr>]) = [None, Some 10, Some (- 10)]"
proof -
  let ?t = "[\<lparr>year = 2021, median_year = 1000, n = 1\<rparr>, \<lparr>year = 2022, median_year = 1100, n = 1\<rparr>,
       \<lparr>year = 2023, median_year = 990, n = 1\<rparr>]"
  note s = add_yoy_spec [of ?t]
  from s have len: "length (add_yoy ?t) = 3" by simp
  from s have y0: "yoy (add_yoy ?t ! 0) = None" by simp
  from s have "yoy (add_yoy ?t ! Suc 0) = Some 10"
    by (elim conjE allE [of _ 0]) simp
  then have y1: "yoy (add_yoy ?t ! 1) = Some 10" by simp
  from s have "yoy (add_yoy ?t ! Suc 1) = Some (- 10)"
    by (elim conjE allE [of _ 1]) simp
  then have y2: "yoy (add_yoy ?t ! 2) = Some (- 10)" by (simp add: numeral_2_eq_2)
  have "map yoy (add_yoy ?t) = [yoy (add_yoy ?t ! 0), yoy (add_yoy ?t ! 1), yoy (add_yoy ?t ! 2)]"
    using len by (intro nth_equalityI) (auto simp: less_Suc_eq numeral_3_eq_3 numeral_2_eq_2)
  then show ?thesis
    by (simp only: y0 y1 y2)
qed

section \<open>Benchmark chart: year alignment\<close>

lemma map_of_foldl_update:
  "map_of (foldl (\<lambda>d r. AList.update (f r) (g r) d) d0 t) =
   map_of (rev (map (\<lambda>r. (f r, g r)) t) @ d0)"
proof (induction t arbitrary: d0)
  case Nil
  then show ?case by simp
next
  case (Cons r t)
  have "map_of (rev (map (\<lambda>r. (f r, g r)) t) @ AList.update (f r) (g r) d0) =
        map_of (rev (map (\<lambda>r. (f r, g r)) t) @ (f r, g r) # d0)"
    by (simp add: map_of_append AList.update_conv')
  with Cons.IH [of "AList.update (f r) (g r) d0"] show ?case
    by simp
qed

lemma map_of_trend_dict:
  "map_of (trend_dict t) = map_of (rev (map (\<lambda>r. (year r, trend_point.median_year r)) t))"
  by (simp add: trend_dict_def map_of_foldl_update)

lemma keys_trend_dict: "fst ` set (trend_dict t) = year ` set t"
proof -
  have "fst ` set (trend_dict t) = dom (map_of (trend_dict t))"
    by (simp add: dom_map_of_conv_image_fst)
  also have "\<dots> = year ` set t"
    by (simp add: map_of_trend_dict dom_map_of_conv_image_fst image_image)
  finally show ?thesis .
qed

lemma all_years_sorted_union:
  "all_years (trend_dict l) (trend_dict s) = sorted_list_of_set (year ` set l \<union> year ` set s)"
proof -
  have "all_years (trend_dict l) (trend_dict s) =
        sorted_list_of_set (set (map fst (trend_dict l) @ map fst (trend_dict s)))"
    by (simp only: all_years_def sorted_list_of_set_sort_remdups)
  then show ?thesis
    by (simp add: keys_trend_dict)
qed

lemma trend_dict_None: "(map_of (trend_dict t) y = None) = (y \<notin> year ` set t)"
  by (simp add: map_of_eq_None_iff keys_trend_dict)

lemma trend_dict_Some:
  "map_of (trend_dict t) y = Some m \<Longrightarrow> \<exists>r \<in> set t. year r = y \<and> trend_point.median_year r = m"
  by (auto simp: map_of_trend_dict dest!: map_of_SomeD)

text \<open>
  Claim C2. For every reference trend \<open>l\<close> and sector trend \<open>s\<close>, the year axis of the
  benchmark chart is the ascending list of the years that occur in one of the two series,
  each once. The two value lists are as long as the axis. At every position a list holds
  nothing exactly when the year of that position is not a year of its series, and otherwise
  the median that the series has for this year.
\<close>

theorem bench_alignment:
  "bench l s = (ys, sv, lv) \<Longrightarrow>
     ys = sorted_list_of_set (year ` set l \<union> year ` set s)
   \<and> length sv = length ys \<and> length lv = length ys
   \<and> (\<forall>i < length ys.
         ((sv ! i = None) = (ys ! i \<notin> year ` set s))
       \<and> ((lv ! i = None) = (ys ! i \<notin> year ` set l))
       \<and> sv ! i = map_of (rev (map (\<lambda>r. (year r, trend_point.median_year r)) s)) (ys ! i)
       \<and> lv ! i = map_of (rev (map (\<lambda>r. (year r, trend_point.median_year r)) l)) (ys ! i)
       \<and> (\<forall>m. sv ! i = Some m \<longrightarrow> (\<exists>r \<in> set s. year r = ys ! i \<and> trend_point.median_year r = m))
       \<and> (\<forall>m. lv ! i = Some m \<longrightarrow> (\<exists>r \<in> set l. year r = ys ! i \<and> trend_point.median_year r = m)))"
proof -
  assume b: "bench l s = (ys, sv, lv)"
  have ys: "ys = all_years (trend_dict l) (trend_dict s)"
    and sv: "sv = map (map_of (trend_dict s)) ys"
    and lv: "lv = map (map_of (trend_dict l)) ys"
    using b by (auto simp: bench_def Let_def)
  have "\<forall>m. map_of (trend_dict t) y = Some m \<longrightarrow>
          (\<exists>r \<in> set t. year r = y \<and> trend_point.median_year r = m)" for t y
    using trend_dict_Some by blast
  then show ?thesis
    using ys by (simp add: sv lv all_years_sorted_union trend_dict_None)
      (simp add: map_of_trend_dict)
qed

text \<open>The example of the claim: sector years 2021 and 2023, reference years 2021 and
  2022.\<close>

lemma bench_example:
  "bench [\<lparr>year = 2021, median_year = 1500, n = 40\<rparr>, \<lparr>year = 2022, median_year = 1600, n = 50\<rparr>]
         [\<lparr>year = 2021, median_year = 1200, n = 4\<rparr>, \<lparr>year = 2023, median_year = 1400, n = 6\<rparr>]
   = ([2021, 2022, 2023], [Some 1200, None, Some 1400], [Some 1500, Some 1600, None])"
  by code_simp

theorem bench_alignment_witness:
  "bench [\<lparr>year = 2021, median_year = 1500, n = 40\<rparr>, \<lparr>year = 2022, median_year = 1600, n = 50\<rparr>]
         [\<lparr>year = 2021, median_year = 1200, n = 4\<rparr>, \<lparr>year = 2023, median_year = 1400, n = 6\<rparr>]
   = ([2021, 2022, 2023], [Some 1200, None, Some 1400], [Some 1500, Some 1600, None])
   \<and> [2021, 2022, 2023] =
       sorted_list_of_set
         (year ` set [\<lparr>year = 2021, median_year = 1500, n = 40\<rparr>, \<lparr>year = 2022, median_year = 1600, n = 50\<rparr>]
          \<union> year ` set [\<lparr>year = 2021, median_year = 1200, n = 4\<rparr>, \<lparr>year = 2023, median_year = 1400, n = 6\<rparr>])"
  using bench_alignment [OF bench_example] bench_example by blast

section \<open>Aggregator: undefined medians\<close>

lemma map_filter_Nil_iff: "(List.map_filter f xs = []) = (\<forall>x \<in> set xs. f x = None)"
  by (auto simp: List.map_filter_def filter_empty_conv)

lemma safe_median_None_iff: "(safe_median s = None) = (\<forall>c \<in> set s. to_numeric c = None)"
  by (simp add: safe_median_def Let_def map_filter_Nil_iff)

lemma safe_count_length: "safe_count s = length (filter (\<lambda>c. to_numeric c \<noteq> None) s)"
  by (simp add: safe_count_def List.map_filter_def)

lemma safe_count_0_iff: "(safe_count s = 0) = (\<forall>c \<in> set s. to_numeric c = None)"
  by (simp add: safe_count_def map_filter_Nil_iff)

lemma set_apply_verified_filter: "set (apply_verified_filter g) \<subseteq> set g"
  by (simp add: apply_verified_filter_def)

lemma compute_stats_sel:
  "stats.n (compute_stats g) = safe_count (map Annual (apply_verified_filter g))"
  "stats.median_year (compute_stats g) = safe_median (map Annual (apply_verified_filter g))"
  "median_month (compute_stats g) = safe_median (map Monthly (apply_verified_filter g))"
  "median_psf (compute_stats g) = safe_median (map Psf (apply_verified_filter g))"
  "median_psm (compute_stats g) = safe_median (map Psm (apply_verified_filter g))"
  by (simp_all add: compute_stats_def Let_def)



text \<open>
  Claim C6, as amended. \<open>compute_stats\<close> is a total function. On the empty subset it
  returns the count 0 and no median. For each of the four fields, the median is undefined
  exactly when no verified row of the subset has a number in that field, so it is undefined,
  and not zero, on a subset with no number in the field. The count is the number of verified
  rows with a number in the annual field: it is 0 exactly when the annual field has none,
  whatever the other fields hold.
\<close>

theorem compute_stats_undefined:
  "compute_stats [] =
     \<lparr> stats.n = 0, stats.median_year = None, median_month = None, median_psf = None,
       median_psm = None \<rparr>
   \<and> stats.n (compute_stats g) =
       length (filter (\<lambda>r. to_numeric (Annual r) \<noteq> None) (apply_verified_filter g))
   \<and> (stats.n (compute_stats g) = 0) =
       (\<forall>r \<in> set (apply_verified_filter g). to_numeric (Annual r) = None)
   \<and> (stats.median_year (compute_stats g) = None) =
       (\<forall>r \<in> set (apply_verified_filter g). to_numeric (Annual r) = None)
   \<and> (median_month (compute_stats g) = None) =
       (\<forall>r \<in> set (apply_verified_filter g). to_numeric (Monthly r) = None)
   \<and> (median_psf (compute_stats g) = None) =
       (\<forall>r \<in> set (apply_verified_filter g). to_numeric (Psf r) = None)
   \<and> (median_psm (compute_stats g) = None) =
       (\<forall>r \<in> set (apply_verified_filter g). to_numeric (Psm r) = None)
   \<and> ((\<forall>r \<in> set g. to_numeric (Annual r) = None) \<longrightarrow>
        stats.n (compute_stats g) = 0 \<and> stats.median_year (compute_stats g) = None)
   \<and> ((\<forall>r \<in> set g. to_numeric (Monthly r) = None) \<longrightarrow> median_month (compute_stats g) = None)
   \<and> ((\<forall>r \<in> set g. to_numeric (Psf r) = None) \<longrightarrow> median_psf (compute_stats g) = None)
   \<and> ((\<forall>r \<in> set g. to_numeric (Psm r) = None) \<longrightarrow> median_psm (compute_stats g) = None)"
proof -
  have empty: "compute_stats [] =
     \<lparr> stats.n = 0, stats.median_year = None, median_month = None, median_psf = None,
       median_psm = None \<rparr>"
    by (simp add: compute_stats_def apply_verified_filter_def safe_count_def safe_median_def)
  have cnt: "stats.n (compute_stats g) =
       length (filter (\<lambda>r. to_numeric (Annual r) \<noteq> None) (apply_verified_filter g))"
    by (simp add: compute_stats_sel safe_count_length filter_map comp_def)
  have i1: "(stats.n (compute_stats g) = 0) =
       (\<forall>r \<in> set (apply_verified_filter g). to_numeric (Annual r) = None)"
    by (simp add: compute_stats_sel safe_count_0_iff)
  have i2: "(stats.median_year (compute_stats g) = None) =
       (\<forall>r \<in> set (apply_verified_filter g). to_numeric (Annual r) = None)"
    by (simp add: compute_stats_sel safe_median_None_iff)
  have i3: "(median_month (compute_stats g) = None) =
       (\<forall>r \<in> set (apply_verified_filter g). to_numeric (Monthly r) = None)"
    by (simp add: compute_stats_sel safe_median_None_iff)
  have i4: "(median_psf (compute_stats g) = None) =
       (\<forall>r \<in> set (apply_verified_filter g). to_numeric (Psf r) = None)"
    by (simp add: compute_stats_sel safe_median_None_iff)
  have i5: "(median_psm (compute_stats g) = None) =
       (\<forall>r \<in> set (apply_verified_filter g). to_numeric (Psm r) = None)"
    by (simp add: compute_stats_sel safe_median_None_iff)
  have sub: "\<forall>r \<in> set g. P r \<Longrightarrow> \<forall>r \<in> set (apply_verified_filter g). P r" for P
    using set_apply_verified_filter by blast
  have j1: "(\<forall>r \<in> set g. to_numeric (Annual r) = None) \<longrightarrow>
        stats.n (compute_stats g) = 0 \<and> stats.median_year (compute_stats g) = None"
    using sub [of "\<lambda>r. to_numeric (Annual r) = None"] by (simp only: i1 i2) simp
  have j2: "(\<forall>r \<in> set g. to_numeric (Monthly r) = None) \<longrightarrow> median_month (compute_stats g) = None"
    using sub [of "\<lambda>r. to_numeric (Monthly r) = None"] by (simp only: i3) simp
  have j3: "(\<forall>r \<in> set g. to_numeric (Psf r) = None) \<longrightarrow> median_psf (compute_stats g) = None"
    using sub [of "\<lambda>r. to_numeric (Psf r) = None"] by (simp only: i4) simp
  have j4: "(\<forall>r \<in> set g. to_numeric (Psm r) = None) \<longrightarrow> median_psm (compute_stats g) = None"
    using sub [of "\<lambda>r. to_numeric (Psm r) = None"] by (simp only: i5) simp
  show ?thesis
    by (intro conjI) (rule empty cnt i1 i2 i3 i4 i5 j1 j2 j3 j4)+
qed


lemma example_psf_none: "list_all (\<lambda>r. to_numeric (Psf r) = None) (load example_csv)"
  by code_simp

lemma example_stats_n: "stats.n (compute_stats (load example_csv)) = 4"
  by code_simp

theorem compute_stats_undefined_witness:
  "list_all (\<lambda>r. to_numeric (Psf r) = None) (load example_csv)
   \<and> median_psf (compute_stats (load example_csv)) = None"
proof -
  have b: "\<forall>r \<in> set (load example_csv). to_numeric (Psf r) = None"
    using example_psf_none by (simp only: list_all_iff)
  have "(\<forall>r \<in> set (load example_csv). to_numeric (Psf r) = None) \<longrightarrow>
        median_psf (compute_stats (load example_csv)) = None"
    using compute_stats_undefined [of "load example_csv"] by (elim conjE)
  with b have "median_psf (compute_stats (load example_csv)) = None"
    by (rule rev_mp)
  with example_psf_none show ?thesis
    by (rule conjI)
qed

text \<open>
  The claim as written gives the count 0 for a subset with no number in any one of the four
  fields. In the example data no row has a number in the per-square-foot field, and the
  count is 4.
\<close>

theorem compute_stats_count_counterexample:
  "list_all (\<lambda>r. to_numeric (Psf r) = None) (load example_csv)
   \<and> stats.n (compute_stats (load example_csv)) \<noteq> 0"
  by (simp only: example_psf_none example_stats_n) simp

section \<open>Trend builder: one point per year\<close>

lemma filter_year_has_year:
  "filter (\<lambda>r. row_year r = Some yr) (filter (\<lambda>r. row_year r \<noteq> None) g) =
   filter (\<lambda>r. row_year r = Some yr) g"
  by (induction g) auto

lemma trend_rows_map:
  "trend_rows g2 ys =
     map (\<lambda>yr. \<lparr> year = py_int yr,
                 median_year = the (safe_median (map Annual (filter (\<lambda>r. row_year r = Some yr) g2))),
                 n = safe_count (map Annual (filter (\<lambda>r. row_year r = Some yr) g2)) \<rparr>)
       (filter (\<lambda>yr. safe_median (map Annual (filter (\<lambda>r. row_year r = Some yr) g2)) \<noteq> None) ys)"
  by (induction ys) (auto simp: Let_def)

lemma filter_sort_remdups:
  "filter P (sort (remdups xs)) = sorted_list_of_set {x \<in> set xs. P x}"
proof (rule sorted_distinct_set_unique)
  show "sorted (filter P (sort (remdups xs)))"
    by (simp add: sorted_filter [where f = "\<lambda>x. x", simplified])
  show "distinct (filter P (sort (remdups xs)))"
    by simp
  show "sorted (sorted_list_of_set {x \<in> set xs. P x})"
    by simp
  show "distinct (sorted_list_of_set {x \<in> set xs. P x})"
    by simp
  show "set (filter P (sort (remdups xs))) = set (sorted_list_of_set {x \<in> set xs. P x})"
    by simp
qed

lemma in_map_filter_row_year:
  "(yr \<in> set (List.map_filter row_year (filter (\<lambda>r. row_year r \<noteq> None) g))) =
   (\<exists>r \<in> set g. row_year r = Some yr)"
  by (induction g) (auto split: option.splits)

lemma safe_median_year_group_iff:
  "(safe_median (year_group g yr) \<noteq> None) =
   (\<exists>r \<in> set (apply_verified_filter g). row_year r = Some yr \<and> to_numeric (Annual r) \<noteq> None)"
  by (auto simp: safe_median_def Let_def year_group_def List.map_filter_def filter_empty_conv)

lemma safe_median_the:
  "safe_median s \<noteq> None \<Longrightarrow> the (safe_median s) = median (List.map_filter to_numeric s)"
  by (simp add: safe_median_def Let_def split: if_splits)

lemma compute_trend_by_year_eq:
  "compute_trend_by_year g =
     map (\<lambda>yr. \<lparr> year = py_int yr,
                 median_year = median (List.map_filter to_numeric (year_group g yr)),
                 n = length (List.map_filter to_numeric (year_group g yr)) \<rparr>)
       (sorted_list_of_set
          {yr. \<exists>r \<in> set (apply_verified_filter g).
                 row_year r = Some yr \<and> to_numeric (Annual r) \<noteq> None})"
proof -
  let ?v = "apply_verified_filter g"
  let ?g2 = "filter (\<lambda>r. row_year r \<noteq> None) ?v"
  let ?Y = "{yr. \<exists>r \<in> set ?v. row_year r = Some yr \<and> to_numeric (Annual r) \<noteq> None}"
  have grp: "map Annual (filter (\<lambda>r. row_year r = Some yr) ?g2) = year_group g yr" for yr
    by (simp only: year_group_def filter_year_has_year)
  have "compute_trend_by_year g = trend_rows ?g2 (sort (remdups (List.map_filter row_year ?g2)))"
    by (simp add: compute_trend_by_year_def Let_def)
  also have "\<dots> =
     map (\<lambda>yr. \<lparr> year = py_int yr, median_year = the (safe_median (year_group g yr)),
                 n = safe_count (year_group g yr) \<rparr>)
       (filter (\<lambda>yr. safe_median (year_group g yr) \<noteq> None)
          (sort (remdups (List.map_filter row_year ?g2))))"
    by (simp only: trend_rows_map grp)
  also have "filter (\<lambda>yr. safe_median (year_group g yr) \<noteq> None)
          (sort (remdups (List.map_filter row_year ?g2))) = sorted_list_of_set ?Y"
  proof -
    have "{x \<in> set (List.map_filter row_year ?g2). safe_median (year_group g x) \<noteq> None} = ?Y"
    proof (rule set_eqI)
      fix yr
      show "(yr \<in> {x \<in> set (List.map_filter row_year ?g2). safe_median (year_group g x) \<noteq> None}) =
            (yr \<in> ?Y)"
        by (simp only: mem_Collect_eq in_map_filter_row_year safe_median_year_group_iff) blast
    qed
    then show ?thesis
      by (simp only: filter_sort_remdups)
  qed
  also have "map (\<lambda>yr. \<lparr> year = py_int yr, median_year = the (safe_median (year_group g yr)),
                 n = safe_count (year_group g yr) \<rparr>) (sorted_list_of_set ?Y) =
     map (\<lambda>yr. \<lparr> year = py_int yr,
                 median_year = median (List.map_filter to_numeric (year_group g yr)),
                 n = length (List.map_filter to_numeric (year_group g yr)) \<rparr>)
       (sorted_list_of_set ?Y)"
  proof (rule map_cong [OF refl])
    fix yr assume "yr \<in> set (sorted_list_of_set ?Y)"
    moreover have "finite ?Y"
      by (rule finite_subset [of _ "(\<lambda>r. the (row_year r)) ` set ?v"]) force+
    ultimately have "yr \<in> ?Y" by simp
    then have "safe_median (year_group g yr) \<noteq> None"
      by (simp only: mem_Collect_eq safe_median_year_group_iff)
    then show "\<lparr> year = py_int yr, median_year = the (safe_median (year_group g yr)),
                 n = safe_count (year_group g yr) \<rparr> =
       \<lparr> year = py_int yr,
         median_year = median (List.map_filter to_numeric (year_group g yr)),
         n = length (List.map_filter to_numeric (year_group g yr)) \<rparr>"
      by (simp add: safe_median_the safe_count_def)
  qed
  finally show ?thesis .
qed

lemma py_int_mono: "x \<le> y \<Longrightarrow> py_int x \<le> py_int y"
proof -
  assume xy: "x \<le> y"
  show ?thesis
  proof (cases "0 \<le> x")
    case True
    with xy show ?thesis by (simp add: py_int_def floor_mono)
  next
    case x: False
    show ?thesis
    proof (cases "0 \<le> y")
      case True
      have "\<lceil>x\<rceil> \<le> 0" using x by (simp add: ceiling_le_zero)
      moreover have "0 \<le> \<lfloor>y\<rfloor>" using True by simp
      ultimately have "\<lceil>x\<rceil> \<le> \<lfloor>y\<rfloor>" by (rule order_trans)
      then show ?thesis using x True by (simp add: py_int_def)
    next
      case False
      with x xy show ?thesis by (simp add: py_int_def ceiling_mono)
    qed
  qed
qed

lemma py_int_of_Ints: "x \<in> \<int> \<Longrightarrow> real_of_int (py_int x) = x"
  by (auto simp: py_int_def elim!: Ints_cases)

lemma py_int_strict: "x \<in> \<int> \<Longrightarrow> y \<in> \<int> \<Longrightarrow> x < y \<Longrightarrow> py_int x < py_int y"
proof -
  assume "x \<in> \<int>" "y \<in> \<int>" "x < y"
  then have "real_of_int (py_int x) < real_of_int (py_int y)"
    by (simp add: py_int_of_Ints)
  then show ?thesis by simp
qed

lemma finite_trend_years:
  "finite {yr. \<exists>r \<in> set g. row_year r = Some yr \<and> P r}"
  by (rule finite_subset [of _ "(\<lambda>r. the (row_year r)) ` set g"]) force+

lemma year_compute_trend_by_year:
  "map year (compute_trend_by_year g) =
     map py_int (sorted_list_of_set
       {yr. \<exists>r \<in> set (apply_verified_filter g).
              row_year r = Some yr \<and> to_numeric (Annual r) \<noteq> None})"
  by (simp only: compute_trend_by_year_eq map_map comp_def trend_point.simps)

text \<open>
  Claim C3. For every list of rows \<open>g\<close>, \<open>compute_trend_by_year\<close> returns exactly one
  point for each resolved year in which some verified row has a number in the annual field,
  and no other point: a year whose verified rows have no such number has no point. The
  points stand in ascending order of their years, as many as there are such years. The
  point of a year carries the median and the count of the numbers in the annual field of
  the verified rows of that year, and the year rounded to an integer as \<^verbatim>\<open>int\<close> does.
  The year fields ascend, and they ascend strictly when every resolved year is a whole
  number.
\<close>

theorem compute_trend_by_year_spec:
  "compute_trend_by_year g =
     map (\<lambda>yr. \<lparr> year = py_int yr,
                 median_year = median (List.map_filter to_numeric (year_group g yr)),
                 n = length (List.map_filter to_numeric (year_group g yr)) \<rparr>)
       (sorted_list_of_set
          {yr. \<exists>r \<in> set (apply_verified_filter g).
                 row_year r = Some yr \<and> to_numeric (Annual r) \<noteq> None})
   \<and> length (compute_trend_by_year g) =
       card {yr. \<exists>r \<in> set (apply_verified_filter g).
                   row_year r = Some yr \<and> to_numeric (Annual r) \<noteq> None}
   \<and> sorted (map year (compute_trend_by_year g))
   \<and> ((\<forall>r \<in> set g. \<forall>yr. row_year r = Some yr \<longrightarrow> yr \<in> \<int>) \<longrightarrow>
        sorted_wrt (<) (map year (compute_trend_by_year g)))"
proof -
  let ?Y = "{yr. \<exists>r \<in> set (apply_verified_filter g).
                   row_year r = Some yr \<and> to_numeric (Annual r) \<noteq> None}"
  have fin: "finite ?Y"
    by (rule finite_trend_years)
  have len: "length (compute_trend_by_year g) = card ?Y"
    by (simp add: compute_trend_by_year_eq)
  have "sorted (sorted_list_of_set ?Y)"
    by simp
  then have "sorted (map py_int (sorted_list_of_set ?Y))"
    by (rule sorted_wrt_map_mono) (rule py_int_mono)
  then have srt: "sorted (map year (compute_trend_by_year g))"
    by (simp only: year_compute_trend_by_year)
  have strict: "sorted_wrt (<) (map year (compute_trend_by_year g))"
    if ints: "\<forall>r \<in> set g. \<forall>yr. row_year r = Some yr \<longrightarrow> yr \<in> \<int>"
  proof -
    have Y: "yr \<in> \<int>" if "yr \<in> set (sorted_list_of_set ?Y)" for yr
    proof -
      from that fin have "yr \<in> ?Y" by simp
      then obtain r where "r \<in> set (apply_verified_filter g)" "row_year r = Some yr"
        by blast
      with ints set_apply_verified_filter [of g] show ?thesis by blast
    qed
    have "sorted_wrt (<) (sorted_list_of_set ?Y)"
      by simp
    then have "sorted_wrt (<) (map py_int (sorted_list_of_set ?Y))"
      by (rule sorted_wrt_map_mono) (simp add: py_int_strict Y)
    then show ?thesis
      by (simp only: year_compute_trend_by_year)
  qed
  show ?thesis
    using strict by (intro conjI impI) (rule compute_trend_by_year_eq len srt, assumption?)+
qed

lemma example_trend:
  "compute_trend_by_year (load example_csv) =
     [\<lparr>year = 2019, median_year = 900, n = 1\<rparr>, \<lparr>year = 2021, median_year = 1100, n = 2\<rparr>]"
  by code_simp

lemma example_years:
  "map row_year (load example_csv) = [Some 2021, Some 2021, Some 2021, Some 2020, None, Some 2019]"
  by code_simp

theorem compute_trend_by_year_spec_witness:
  "compute_trend_by_year (load example_csv) =
     [\<lparr>year = 2019, median_year = 900, n = 1\<rparr>, \<lparr>year = 2021, median_year = 1100, n = 2\<rparr>]
   \<and> list_all (\<lambda>y. case y of None \<Rightarrow> True | Some yr \<Rightarrow> yr \<in> \<int>) (map row_year (load example_csv))
   \<and> sorted_wrt (<) (map year (compute_trend_by_year (load example_csv)))"
proof -
  have a: "list_all (\<lambda>y. case y of None \<Rightarrow> True | Some yr \<Rightarrow> yr \<in> \<int>) (map row_year (load example_csv))"
    by (simp add: example_years)
  then have "\<forall>r \<in> set (load example_csv). \<forall>yr. row_year r = Some yr \<longrightarrow> yr \<in> \<int>"
    by (auto simp: list_all_iff)
  with compute_trend_by_year_spec [of "load example_csv"]
  have "sorted_wrt (<) (map year (compute_trend_by_year (load example_csv)))"
    by blast
  with a example_trend show ?thesis by blast
qed

section \<open>Year resolution\<close>

lemma row_year_load_row:
  "row_year (load_row fb r) =
     (if fb then map_option (\<lambda>t. real_of_int (dt_year t)) (Period_End r)
      else to_numeric (Vintage_Year r))"
  by (simp add: load_row_def)

lemma map_row_year_load:
  "map row_year (load csv) =
     (if (\<forall>r \<in> set csv. to_numeric (Vintage_Year r) = None)
      then map (\<lambda>r. map_option (\<lambda>t. real_of_int (dt_year t)) (Period_End r)) csv
      else map (\<lambda>r. to_numeric (Vintage_Year r)) csv)"
proof -
  let ?fb = "list_all (\<lambda>r. to_numeric (Vintage_Year r) = None) csv"
  have fb: "?fb = (\<forall>r \<in> set csv. to_numeric (Vintage_Year r) = None)"
    by (rule list_all_iff)
  have "map row_year (load csv) = map (\<lambda>r. row_year (load_row ?fb r)) csv"
    by (simp add: load_def comp_def)
  also have "\<dots> =
     (if ?fb then map (\<lambda>r. map_option (\<lambda>t. real_of_int (dt_year t)) (Period_End r)) csv
      else map (\<lambda>r. to_numeric (Vintage_Year r)) csv)"
    by (cases ?fb) (simp_all only: row_year_load_row if_True if_False)
  finally show ?thesis
    by (simp only: fb)
qed

lemma trend_ignores_no_year:
  "compute_trend_by_year (filter (\<lambda>r. row_year r \<noteq> None) g) = compute_trend_by_year g"
proof -
  have "filter (\<lambda>r. row_year r \<noteq> None) (apply_verified_filter (filter (\<lambda>r. row_year r \<noteq> None) g)) =
        filter (\<lambda>r. row_year r \<noteq> None) (apply_verified_filter g)"
    by (induction g) (simp_all add: apply_verified_filter_def)
  then show ?thesis
    by (simp only: compute_trend_by_year_def)
qed

text \<open>
  Claim C8. The year column of the loaded frame is chosen once for the whole dataset: it
  is the year of the period end in every row when no row has a number as vintage year, and
  the number \<^verbatim>\<open>pd.to_numeric\<close> reads from the vintage year in every row otherwise. So when
  some row has a numeric vintage year, a row whose own vintage year is not a number has no
  resolved year, whatever its period end; and rows with no resolved year do not take part
  in the trend.
\<close>

theorem year_resolution_dataset_wide:
  "map row_year (load csv) =
     (if (\<forall>r \<in> set csv. to_numeric (Vintage_Year r) = None)
      then map (\<lambda>r. map_option (\<lambda>t. real_of_int (dt_year t)) (Period_End r)) csv
      else map (\<lambda>r. to_numeric (Vintage_Year r)) csv)
   \<and> ((\<exists>r \<in> set csv. to_numeric (Vintage_Year r) \<noteq> None) \<longrightarrow>
        (\<forall>i < length csv. to_numeric (Vintage_Year (csv ! i)) = None \<longrightarrow>
           row_year (load csv ! i) = None))
   \<and> compute_trend_by_year g = compute_trend_by_year (filter (\<lambda>r. row_year r \<noteq> None) g)"
proof -
  have a: "(\<exists>r \<in> set csv. to_numeric (Vintage_Year r) \<noteq> None) \<longrightarrow>
        (\<forall>i < length csv. to_numeric (Vintage_Year (csv ! i)) = None \<longrightarrow>
           row_year (load csv ! i) = None)"
  proof (intro impI allI)
    fix i
    assume ex: "\<exists>r \<in> set csv. to_numeric (Vintage_Year r) \<noteq> None"
      and i: "i < length csv" and v: "to_numeric (Vintage_Year (csv ! i)) = None"
    from ex have "map row_year (load csv) = map (\<lambda>r. to_numeric (Vintage_Year r)) csv"
      by (simp only: map_row_year_load) auto
    then have "map row_year (load csv) ! i = map (\<lambda>r. to_numeric (Vintage_Year r)) csv ! i"
      by simp
    moreover have "length (load csv) = length csv"
      by (simp add: load_def)
    ultimately show "row_year (load csv ! i) = None"
      using i v by simp
  qed
  show ?thesis
    by (intro conjI) (rule map_row_year_load a trend_ignores_no_year [symmetric])+
qed

lemma example_has_vintage: "to_numeric (Vintage_Year (example_csv ! 0)) \<noteq> None"
  by code_simp

lemma example_row_4:
  "to_numeric (Vintage_Year (example_csv ! 4)) = None
   \<and> Period_End (example_csv ! 4) = Some (Timestamp 2023 3 31)
   \<and> rel_clean (load example_csv ! 4) = ''HIGH''
   \<and> Annual (load example_csv ! 4) = Num 1500
   \<and> length example_csv = 6"
  by code_simp

text \<open>In the example data the first row has the vintage year 2021; the fifth row has
  none and a period end in 2023, and gets no year.\<close>

theorem year_resolution_dataset_wide_witness:
  "to_numeric (Vintage_Year (example_csv ! 0)) \<noteq> None
   \<and> to_numeric (Vintage_Year (example_csv ! 4)) = None
   \<and> Period_End (example_csv ! 4) = Some (Timestamp 2023 3 31)
   \<and> row_year (load example_csv ! 4) = None"
proof -
  have "example_csv ! 0 \<in> set example_csv"
    using example_row_4 by (intro nth_mem) simp
  with example_has_vintage
  have ex: "\<exists>r \<in> set example_csv. to_numeric (Vintage_Year r) \<noteq> None"
    by blast
  have i: "4 < length example_csv"
    using example_row_4 by simp
  from year_resolution_dataset_wide [of example_csv] ex i example_row_4
  have "row_year (load example_csv ! 4) = None"
    by blast
  with example_has_vintage example_row_4 show ?thesis
    by blast
qed

section \<open>Rows without a reliability tag\<close>

lemma nan_clean: "upper (strip ''nan'') = ''NAN''"
  by code_simp

lemma nan_verified: "''NAN'' \<notin> EXCLUDE_RELIABILITY"
  by (simp add: EXCLUDE_RELIABILITY_def)

lemma rel_clean_load_row:
  "rel_clean (load_row fb r) = upper (strip (astype_str (Reliability r)))"
  by (simp add: load_row_def)

lemma load_row_retag_cells:
  "Annual (load_row fb (retag t r)) = Annual (load_row fb r)"
  "Monthly (load_row fb (retag t r)) = Monthly (load_row fb r)"
  "Psf (load_row fb (retag t r)) = Psf (load_row fb r)"
  "Psm (load_row fb (retag t r)) = Psm (load_row fb r)"
  "Sector (load_row fb (retag t r)) = Sector (load_row fb r)"
  "row_year (load_row fb (retag t r)) = row_year (load_row fb r)"
  by (simp_all add: load_row_def retag_def)

lemma load_row_retag_verified:
  "upper (strip t) \<notin> EXCLUDE_RELIABILITY \<Longrightarrow>
   (rel_clean (load_row fb (retag t r)) \<notin> EXCLUDE_RELIABILITY) =
   (rel_clean (load_row fb r) \<notin> EXCLUDE_RELIABILITY)"
  by (cases "Reliability r")
    (simp_all add: rel_clean_load_row retag_def nan_clean nan_verified astype_str_def)

lemma load_retag:
  "load (map (retag t) csv) =
   map (\<lambda>r. load_row (list_all (\<lambda>r. to_numeric (Vintage_Year r) = None) csv) (retag t r)) csv"
proof -
  have "Vintage_Year (retag t r) = Vintage_Year r" for r
    by (simp add: retag_def)
  then show ?thesis
    by (simp add: load_def list_all_iff comp_def)
qed

lemma map_filter_map_cong:
  "(\<And>x. x \<in> set xs \<Longrightarrow> P (h x) = P' (h' x)) \<Longrightarrow>
   (\<And>x. x \<in> set xs \<Longrightarrow> F (h x) = F (h' x)) \<Longrightarrow>
   map F (filter P (map h xs)) = map F (filter P' (map h' xs))"
  by (induction xs) simp_all


lemma retag_map_cells:
  assumes t: "upper (strip t) \<notin> EXCLUDE_RELIABILITY"
    and F: "\<And>fb r. F (load_row fb (retag t r)) = F (load_row fb r)"
    and Q: "\<And>fb r. Q (load_row fb (retag t r)) = Q (load_row fb r)"
  shows "map F (filter (\<lambda>r. Q r \<and> rel_clean r \<notin> EXCLUDE_RELIABILITY) (load (map (retag t) csv))) =
         map F (filter (\<lambda>r. Q r \<and> rel_clean r \<notin> EXCLUDE_RELIABILITY) (load csv))"
  unfolding load_retag unfolding load_def
  by (rule map_filter_map_cong) (simp_all only: F Q load_row_retag_verified [OF t])

lemma retag_verified_cells:
  assumes t: "upper (strip t) \<notin> EXCLUDE_RELIABILITY"
    and F: "\<And>fb r. F (load_row fb (retag t r)) = F (load_row fb r)"
  shows "map F (apply_verified_filter (load (map (retag t) csv))) =
         map F (apply_verified_filter (load csv))"
  using retag_map_cells [OF t F, of "\<lambda>r. True" csv]
  by (simp add: apply_verified_filter_def)

lemma retag_sector_cells:
  assumes t: "upper (strip t) \<notin> EXCLUDE_RELIABILITY"
    and F: "\<And>fb r. F (load_row fb (retag t r)) = F (load_row fb r)"
  shows "map F (apply_verified_filter (sector_slice (load (map (retag t) csv)) s)) =
         map F (apply_verified_filter (sector_slice (load csv) s))"
  using retag_map_cells [OF t F, of "\<lambda>r. upper (strip (astype_str (Sector r))) = s" csv]
  by (simp add: apply_verified_filter_def sector_slice_def load_row_retag_cells conj_commute)

lemma retag_year_group:
  assumes t: "upper (strip t) \<notin> EXCLUDE_RELIABILITY"
  shows "year_group (load (map (retag t) csv)) yr = year_group (load csv) yr"
  using retag_map_cells [OF t, of Annual "\<lambda>r. row_year r = Some yr" csv]
  by (simp add: year_group_def apply_verified_filter_def load_row_retag_cells conj_commute)

lemma retag_sector_year_group:
  assumes t: "upper (strip t) \<notin> EXCLUDE_RELIABILITY"
  shows "year_group (sector_slice (load (map (retag t) csv)) s) yr =
         year_group (sector_slice (load csv) s) yr"
  using retag_map_cells [OF t, of Annual
      "\<lambda>r. row_year r = Some yr \<and> upper (strip (astype_str (Sector r))) = s" csv]
  by (simp add: year_group_def apply_verified_filter_def sector_slice_def load_row_retag_cells
      conj_commute conj_left_commute)


lemma compute_trend_by_year_cong:
  assumes "\<And>yr. year_group g yr = year_group g' yr"
  shows "compute_trend_by_year g = compute_trend_by_year g'"
proof -
  have "{yr. \<exists>r \<in> set (apply_verified_filter h).
               row_year r = Some yr \<and> to_numeric (Annual r) \<noteq> None} =
        {yr. safe_median (year_group h yr) \<noteq> None}" for h
    by (simp only: safe_median_year_group_iff)
  then show ?thesis
    by (simp only: compute_trend_by_year_eq assms)
qed

lemma compute_stats_cong:
  assumes "map Annual (apply_verified_filter g) = map Annual (apply_verified_filter g')"
    and "map Monthly (apply_verified_filter g) = map Monthly (apply_verified_filter g')"
    and "map Psf (apply_verified_filter g) = map Psf (apply_verified_filter g')"
    and "map Psm (apply_verified_filter g) = map Psm (apply_verified_filter g')"
  shows "compute_stats g = compute_stats g'"
  by (simp only: compute_stats_def Let_def assms)

lemma missing_tag_verified:
  "Reliability r = None \<Longrightarrow>
   rel_clean (load_row fb r) = ''NAN'' \<and> rel_clean (load_row fb r) \<notin> EXCLUDE_RELIABILITY"
  by (simp add: rel_clean_load_row astype_str_def nan_clean nan_verified)

lemma missing_tag_in_verified:
  "r \<in> set (load csv) \<Longrightarrow> Reliability r = None \<Longrightarrow> r \<in> set (apply_verified_filter (load csv))"
proof -
  assume r: "r \<in> set (load csv)" and m: "Reliability r = None"
  from r obtain fb r0 where r0: "r = load_row fb r0"
    by (auto simp: load_def)
  have "Reliability (load_row fb r0) = Reliability r0"
    by (simp add: load_row_def)
  with m r0 have "Reliability r0 = None" by simp
  then have "rel_clean r \<notin> EXCLUDE_RELIABILITY"
    using missing_tag_verified [of r0 fb] r0 by (simp add: nan_verified)
  with r show ?thesis
    by (simp add: apply_verified_filter_def)
qed

lemma verified_iff_counted:
  "rel_clean x = upper (strip (astype_str (Reliability x))) \<Longrightarrow>
   (rel_clean x \<notin> EXCLUDE_RELIABILITY) = counted x"
  by (cases "Reliability x") (simp_all add: counted_def astype_str_def nan_clean nan_verified)

lemma apply_verified_filter_counted:
  assumes "\<forall>x \<in> set g. rel_clean x = upper (strip (astype_str (Reliability x)))"
  shows "apply_verified_filter g = filter counted g"
  unfolding apply_verified_filter_def
proof (rule filter_cong [OF refl])
  fix x assume "x \<in> set g"
  with assms have "rel_clean x = upper (strip (astype_str (Reliability x)))"
    by blast
  then show "(rel_clean x \<notin> EXCLUDE_RELIABILITY) = counted x"
    by (rule verified_iff_counted)
qed

lemma loaded_rows_clean:
  "\<forall>x \<in> set (load csv). rel_clean x = upper (strip (astype_str (Reliability x)))"
  by (auto simp: load_def load_row_def)

lemma sector_slice_clean:
  "\<forall>x \<in> set (sector_slice (load csv) s). rel_clean x = upper (strip (astype_str (Reliability x)))"
  using loaded_rows_clean [of csv] by (simp add: sector_slice_def)

lemma year_group_counted:
  assumes "\<forall>x \<in> set g. rel_clean x = upper (strip (astype_str (Reliability x)))"
  shows "List.map_filter to_numeric (year_group g yr) =
         counted_values Annual (filter (\<lambda>x. row_year x = Some yr) g)"
proof -
  have "filter (\<lambda>r. row_year r = Some yr) (filter counted g) =
        filter counted (filter (\<lambda>x. row_year x = Some yr) g)"
    by (simp add: conj_commute)
  then show ?thesis
    by (simp only: year_group_def counted_values_def apply_verified_filter_counted [OF assms])
qed

lemma compute_stats_counted:
  assumes "\<forall>x \<in> set g. rel_clean x = upper (strip (astype_str (Reliability x)))"
  shows "stats.n (compute_stats g) = length (counted_values Annual g)"
    and "stats.median_year (compute_stats g) =
         (if counted_values Annual g = [] then None else Some (median (counted_values Annual g)))"
    and "median_month (compute_stats g) =
         (if counted_values Monthly g = [] then None else Some (median (counted_values Monthly g)))"
    and "median_psf (compute_stats g) =
         (if counted_values Psf g = [] then None else Some (median (counted_values Psf g)))"
    and "median_psm (compute_stats g) =
         (if counted_values Psm g = [] then None else Some (median (counted_values Psm g)))"
  by (simp_all add: compute_stats_sel apply_verified_filter_counted [OF assms] counted_values_def
      safe_count_def safe_median_def Let_def)

lemma compute_trend_by_year_counted:
  assumes "\<forall>x \<in> set g. rel_clean x = upper (strip (astype_str (Reliability x)))"
  shows "compute_trend_by_year g =
     map (\<lambda>yr. \<lparr> year = py_int yr,
                 median_year = median (counted_values Annual (filter (\<lambda>x. row_year x = Some yr) g)),
                 n = length (counted_values Annual (filter (\<lambda>x. row_year x = Some yr) g)) \<rparr>)
       (sorted_list_of_set
          {yr. \<exists>x \<in> set g. row_year x = Some yr \<and> counted x \<and> to_numeric (Annual x) \<noteq> None})"
proof -
  have "{yr. \<exists>r \<in> set (apply_verified_filter g).
               row_year r = Some yr \<and> to_numeric (Annual r) \<noteq> None} =
        {yr. \<exists>x \<in> set g. row_year x = Some yr \<and> counted x \<and> to_numeric (Annual x) \<noteq> None}"
    unfolding apply_verified_filter_counted [OF assms] by auto
  then show ?thesis
    by (simp only: compute_trend_by_year_eq year_group_counted [OF assms])
qed

lemma in_counted_values:
  "x \<in> set g \<Longrightarrow> counted x \<Longrightarrow> to_numeric (f x) = Some a \<Longrightarrow> a \<in> set (counted_values f g)"
  by (force simp: counted_values_def List.map_filter_def image_iff)


lemma trend_point_of_year:
  assumes g: "\<forall>x \<in> set g. rel_clean x = upper (strip (astype_str (Reliability x)))"
    and x: "x \<in> set g" "counted x" "row_year x = Some yr" "to_numeric (Annual x) = Some a"
  shows "\<exists>p \<in> set (compute_trend_by_year g).
           year p = py_int yr \<and>
           trend_point.median_year p =
             median (counted_values Annual (filter (\<lambda>x. row_year x = Some yr) g)) \<and>
           trend_point.n p = length (counted_values Annual (filter (\<lambda>x. row_year x = Some yr) g))"
proof -
  let ?Y = "{yr. \<exists>x \<in> set g. row_year x = Some yr \<and> counted x \<and> to_numeric (Annual x) \<noteq> None}"
  have "finite ?Y"
    by (rule finite_trend_years)
  moreover have "yr \<in> ?Y"
    using x by auto
  ultimately have "yr \<in> set (sorted_list_of_set ?Y)"
    by simp
  then show ?thesis
    unfolding compute_trend_by_year_counted [OF g] by (intro bexI [of _ "_ yr"]) auto
qed

lemma untagged_row_contributes:
  assumes g: "\<forall>x \<in> set g. rel_clean x = upper (strip (astype_str (Reliability x)))"
  shows "\<forall>x \<in> set g. Reliability x = None \<longrightarrow>
       (\<forall>f a. to_numeric (f x) = Some a \<longrightarrow> a \<in> set (counted_values f g))
     \<and> (\<forall>yr a. row_year x = Some yr \<and> to_numeric (Annual x) = Some a \<longrightarrow>
           a \<in> set (counted_values Annual (filter (\<lambda>x. row_year x = Some yr) g))
         \<and> (\<exists>p \<in> set (compute_trend_by_year g).
               year p = py_int yr \<and>
               trend_point.median_year p =
                 median (counted_values Annual (filter (\<lambda>x. row_year x = Some yr) g)) \<and>
               trend_point.n p =
                 length (counted_values Annual (filter (\<lambda>x. row_year x = Some yr) g))))"
proof (intro ballI impI conjI allI)
  fix x f a
  assume x: "x \<in> set g" "Reliability x = None"
  then have c: "counted x" by (simp add: counted_def)
  assume "to_numeric (f x) = Some a"
  with x(1) c show "a \<in> set (counted_values f g)"
    by (rule in_counted_values)
next
  fix x yr a
  assume x: "x \<in> set g" "Reliability x = None"
    and y: "row_year x = Some yr \<and> to_numeric (Annual x) = Some a"
  from x have c: "counted x" by (simp add: counted_def)
  from y have y1: "row_year x = Some yr" and y2: "to_numeric (Annual x) = Some a"
    by simp_all
  from x y1 have m: "x \<in> set (filter (\<lambda>x. row_year x = Some yr) g)" by simp
  show "a \<in> set (counted_values Annual (filter (\<lambda>x. row_year x = Some yr) g))"
    using m c y2 by (rule in_counted_values)
  show "\<exists>p \<in> set (compute_trend_by_year g).
               year p = py_int yr \<and>
               trend_point.median_year p =
                 median (counted_values Annual (filter (\<lambda>x. row_year x = Some yr) g)) \<and>
               trend_point.n p =
                 length (counted_values Annual (filter (\<lambda>x. row_year x = Some yr) g))"
    using g x(1) c y1 y2 by (rule trend_point_of_year)
qed

text \<open>
  Claim C10. A row whose reliability tag is missing is verified: the missing value becomes
  the text \<^verbatim>\<open>nan\<close>, cleaned to \<^verbatim>\<open>NAN\<close>, which is not in the exclusion set, so the row
  passes \<open>apply_verified_filter\<close>. For the loaded dataset and for every sector slice \<open>g\<close> of
  it, the verified rows are the counted rows, those with no tag or a tag that is not
  excluded; the count and the four medians are the length and the medians of the numbers
  that the counted rows hold, and the trend has one point for each year of a counted row
  with a number in the annual field, with the median and the count of the numbers of the
  counted rows of that year. So every number of a row without a tag is among the numbers
  whose median and count are returned, and its year has a trend point. Such rows count
  like rows with an explicit verified tag: writing any tag \<open>t\<close> that is not excluded into
  the rows that have none changes neither the statistics nor the trend.
\<close>

theorem missing_reliability_is_verified:
  "(Reliability r = None \<longrightarrow>
      rel_clean (load_row fb r) = ''NAN'' \<and> rel_clean (load_row fb r) \<notin> EXCLUDE_RELIABILITY)
   \<and> (\<forall>x \<in> set (load csv). Reliability x = None \<longrightarrow> x \<in> set (apply_verified_filter (load csv)))
   \<and> (g = load csv \<or> g = sector_slice (load csv) s \<longrightarrow>
        apply_verified_filter g = filter counted g
      \<and> stats.n (compute_stats g) = length (counted_values Annual g)
      \<and> stats.median_year (compute_stats g) =
          (if counted_values Annual g = [] then None
           else Some (median (counted_values Annual g)))
      \<and> median_month (compute_stats g) =
          (if counted_values Monthly g = [] then None
           else Some (median (counted_values Monthly g)))
      \<and> median_psf (compute_stats g) =
          (if counted_values Psf g = [] then None else Some (median (counted_values Psf g)))
      \<and> median_psm (compute_stats g) =
          (if counted_values Psm g = [] then None else Some (median (counted_values Psm g)))
      \<and> compute_trend_by_year g =
          map (\<lambda>yr. \<lparr> year = py_int yr,
                      median_year =
                        median (counted_values Annual (filter (\<lambda>x. row_year x = Some yr) g)),
                      n = length (counted_values Annual (filter (\<lambda>x. row_year x = Some yr) g)) \<rparr>)
            (sorted_list_of_set
               {yr. \<exists>x \<in> set g.
                      row_year x = Some yr \<and> counted x \<and> to_numeric (Annual x) \<noteq> None})
      \<and> (\<forall>x \<in> set g. Reliability x = None \<longrightarrow>
            (\<forall>f a. to_numeric (f x) = Some a \<longrightarrow> a \<in> set (counted_values f g))
          \<and> (\<forall>yr a. row_year x = Some yr \<and> to_numeric (Annual x) = Some a \<longrightarrow>
                a \<in> set (counted_values Annual (filter (\<lambda>x. row_year x = Some yr) g))
              \<and> (\<exists>p \<in> set (compute_trend_by_year g).
                    year p = py_int yr \<and>
                    trend_point.median_year p =
                      median (counted_values Annual (filter (\<lambda>x. row_year x = Some yr) g)) \<and>
                    trend_point.n p =
                      length (counted_values Annual (filter (\<lambda>x. row_year x = Some yr) g))))))
   \<and> (upper (strip t) \<notin> EXCLUDE_RELIABILITY \<longrightarrow>
        compute_stats (load (map (retag t) csv)) = compute_stats (load csv)
      \<and> compute_trend_by_year (load (map (retag t) csv)) = compute_trend_by_year (load csv)
      \<and> compute_stats (sector_slice (load (map (retag t) csv)) s) =
          compute_stats (sector_slice (load csv) s)
      \<and> compute_trend_by_year (sector_slice (load (map (retag t) csv)) s) =
          compute_trend_by_year (sector_slice (load csv) s))"
proof (intro conjI impI)
  assume "Reliability r = None"
  then show "rel_clean (load_row fb r) = ''NAN''"
    and "rel_clean (load_row fb r) \<notin> EXCLUDE_RELIABILITY"
    using missing_tag_verified by blast+
next
  show "\<forall>x \<in> set (load csv). Reliability x = None \<longrightarrow> x \<in> set (apply_verified_filter (load csv))"
    using missing_tag_in_verified by blast
next
  assume "g = load csv \<or> g = sector_slice (load csv) s"
  then have g: "\<forall>x \<in> set g. rel_clean x = upper (strip (astype_str (Reliability x)))"
    using loaded_rows_clean [of csv] sector_slice_clean [of csv s] by blast
  show "apply_verified_filter g = filter counted g"
    using g by (rule apply_verified_filter_counted)
  show "stats.n (compute_stats g) = length (counted_values Annual g)"
    using g by (rule compute_stats_counted)
  show "stats.median_year (compute_stats g) =
          (if counted_values Annual g = [] then None
           else Some (median (counted_values Annual g)))"
    using g by (rule compute_stats_counted)
  show "median_month (compute_stats g) =
          (if counted_values Monthly g = [] then None
           else Some (median (counted_values Monthly g)))"
    using g by (rule compute_stats_counted)
  show "median_psf (compute_stats g) =
          (if counted_values Psf g = [] then None else Some (median (counted_values Psf g)))"
    using g by (rule compute_stats_counted)
  show "median_psm (compute_stats g) =
          (if counted_values Psm g = [] then None else Some (median (counted_values Psm g)))"
    using g by (rule compute_stats_counted)
  show "compute_trend_by_year g =
          map (\<lambda>yr. \<lparr> year = py_int yr,
                      median_year =
                        median (counted_values Annual (filter (\<lambda>x. row_year x = Some yr) g)),
                      n = length (counted_values Annual (filter (\<lambda>x. row_year x = Some yr) g)) \<rparr>)
            (sorted_list_of_set
               {yr. \<exists>x \<in> set g.
                      row_year x = Some yr \<and> counted x \<and> to_numeric (Annual x) \<noteq> None})"
    using g by (rule compute_trend_by_year_counted)
  show "\<forall>x \<in> set g. Reliability x = None \<longrightarrow>
            (\<forall>f a. to_numeric (f x) = Some a \<longrightarrow> a \<in> set (counted_values f g))
          \<and> (\<forall>yr a. row_year x = Some yr \<and> to_numeric (Annual x) = Some a \<longrightarrow>
                a \<in> set (counted_values Annual (filter (\<lambda>x. row_year x = Some yr) g))
              \<and> (\<exists>p \<in> set (compute_trend_by_year g).
                    year p = py_int yr \<and>
                    trend_point.median_year p =
                      median (counted_values Annual (filter (\<lambda>x. row_year x = Some yr) g)) \<and>
                    trend_point.n p =
                      length (counted_values Annual (filter (\<lambda>x. row_year x = Some yr) g))))"
    using g by (rule untagged_row_contributes)
next
  assume t: "upper (strip t) \<notin> EXCLUDE_RELIABILITY"
  show "compute_stats (load (map (retag t) csv)) = compute_stats (load csv)"
    by (rule compute_stats_cong) (rule retag_verified_cells [OF t], rule load_row_retag_cells)+
  show "compute_trend_by_year (load (map (retag t) csv)) = compute_trend_by_year (load csv)"
    by (rule compute_trend_by_year_cong) (rule retag_year_group [OF t])
  show "compute_stats (sector_slice (load (map (retag t) csv)) s) =
          compute_stats (sector_slice (load csv) s)"
    by (rule compute_stats_cong) (rule retag_sector_cells [OF t], rule load_row_retag_cells)+
  show "compute_trend_by_year (sector_slice (load (map (retag t) csv)) s) =
          compute_trend_by_year (sector_slice (load csv) s)"
    by (rule compute_trend_by_year_cong) (rule retag_sector_year_group [OF t])
qed

lemma high_clean: "upper (strip ''High'') \<notin> EXCLUDE_RELIABILITY"
proof -
  have "upper (strip ''High'') = ''HIGH''" by code_simp
  then show ?thesis by (simp add: EXCLUDE_RELIABILITY_def)
qed

lemma example_untagged_row:
  "Reliability (load example_csv ! 1) = None"
  "to_numeric (Annual (load example_csv ! 1)) = Some 1200"
  "row_year (load example_csv ! 1) = Some 2021"
  "counted_values Annual (load example_csv) = [1000, 1200, 1500, 900]"
  "counted_values Annual (filter (\<lambda>x. row_year x = Some 2021) (load example_csv)) = [1000, 1200]"
  "median [1000, 1200, 1500, 900] = 1100"
  "stats.n (compute_stats (load (take 1 example_csv @ drop 2 example_csv))) = 3"
  "stats.median_year (compute_stats (load (take 1 example_csv @ drop 2 example_csv))) = Some 1000"
  by code_simp+

text \<open>
  In the example data the second row has no tag, the amount 1200 and the year 2021. Its
  amount is one of the four whose median, 1100, and count, 4, are returned, and one of the
  two behind the trend point of 2021; without the row the count is 3 and the median 1000.
\<close>

theorem missing_reliability_is_verified_witness:
  "Reliability (load example_csv ! 1) = None
   \<and> to_numeric (Annual (load example_csv ! 1)) = Some 1200
   \<and> row_year (load example_csv ! 1) = Some 2021
   \<and> counted_values Annual (load example_csv) = [1000, 1200, 1500, 900]
   \<and> stats.n (compute_stats (load example_csv)) = 4
   \<and> stats.median_year (compute_stats (load example_csv)) = Some 1100
   \<and> counted_values Annual (filter (\<lambda>x. row_year x = Some 2021) (load example_csv)) = [1000, 1200]
   \<and> compute_trend_by_year (load example_csv) =
       [\<lparr>year = 2019, median_year = 900, n = 1\<rparr>, \<lparr>year = 2021, median_year = 1100, n = 2\<rparr>]
   \<and> stats.n (compute_stats (load (take 1 example_csv @ drop 2 example_csv))) = 3
   \<and> stats.median_year (compute_stats (load (take 1 example_csv @ drop 2 example_csv))) = Some 1000
   \<and> upper (strip ''High'') \<notin> EXCLUDE_RELIABILITY
   \<and> compute_stats (load (map (retag ''High'') example_csv)) = compute_stats (load example_csv)
   \<and> compute_trend_by_year (load (map (retag ''High'') example_csv)) =
       compute_trend_by_year (load example_csv)"
proof -
  note inst = missing_reliability_is_verified
    [of "example_csv ! 1" False example_csv "load example_csv" "''E14 9''" "''High''"]
  note rows = inst [THEN conjunct2, THEN conjunct2, THEN conjunct1, THEN mp, OF disjI1, OF refl]
  note tags = inst [THEN conjunct2, THEN conjunct2, THEN conjunct2, THEN mp, OF high_clean]
  have n: "stats.n (compute_stats (load example_csv)) = length (counted_values Annual (load example_csv))"
    by (rule rows [THEN conjunct2, THEN conjunct1])
  have m: "stats.median_year (compute_stats (load example_csv)) =
          (if counted_values Annual (load example_csv) = [] then None
           else Some (median (counted_values Annual (load example_csv))))"
    by (rule rows [THEN conjunct2, THEN conjunct2, THEN conjunct1])
  have n4: "stats.n (compute_stats (load example_csv)) = 4"
    by (simp add: n example_untagged_row)
  have m4: "stats.median_year (compute_stats (load example_csv)) = Some 1100"
    by (simp add: m example_untagged_row)
  have inv: "compute_stats (load (map (retag ''High'') example_csv)) = compute_stats (load example_csv)"
    "compute_trend_by_year (load (map (retag ''High'') example_csv)) =
       compute_trend_by_year (load example_csv)"
    by (rule tags [THEN conjunct1], rule tags [THEN conjunct2, THEN conjunct1])
  show ?thesis
    by (intro conjI) (rule example_untagged_row n4 m4 example_trend high_clean inv)+
qed

section \<open>Postal locator: characters and normalisation\<close>

lemma of_char_upper_char:
  "(of_char (upper_char c) :: nat) = (if is_lower c then of_char c - 32 else of_char c)"
proof (cases "is_lower c")
  case True
  have "(of_char c :: nat) < 256"
    by simp
  then have "(of_char c :: nat) - 32 < 256"
    by arith
  then show ?thesis
    using True by (simp add: upper_char_def)
next
  case False
  then show ?thesis by (simp add: upper_char_def)
qed

lemma char_eq_space: "(c = CHR '' '') = ((of_char c :: nat) = 32)"
proof -
  have "(of_char (CHR '' '') :: nat) = 32" by simp
  then show ?thesis by (metis of_char_eq_iff)
qed

lemma is_space_space: "is_space CHR '' ''"
  by (simp add: is_space_def)

lemma is_letter_not_space: "is_letter c \<Longrightarrow> c \<noteq> CHR '' ''"
  by (auto simp: is_letter_def is_upper_def is_lower_def Let_def)

lemma is_digit_not_space: "is_digit c \<Longrightarrow> c \<noteq> CHR '' ''"
  by (auto simp: is_digit_def Let_def)

lemma is_upper_not_space: "is_upper c \<Longrightarrow> c \<noteq> CHR '' ''"
  by (auto simp: is_upper_def Let_def)

lemma is_space_upper_char: "is_space (upper_char c) = is_space c"
  by (auto simp: is_space_def of_char_upper_char is_lower_def Let_def)

lemma upper_char_idem: "upper_char (upper_char c) = upper_char c"
proof -
  have "\<not> is_lower (upper_char c)"
    by (auto simp: is_lower_def of_char_upper_char Let_def)
  then show ?thesis
    by (simp add: upper_char_def)
qed

lemma upper_char_eq_space: "(upper_char c = CHR '' '') = (c = CHR '' '')"
  by (auto simp: char_eq_space of_char_upper_char is_lower_def Let_def)


lemma replace_2sp_Cons_other: "c \<noteq> CHR '' '' \<Longrightarrow> replace_2sp (c # s) = c # replace_2sp s"
  by (cases s) simp_all

lemma replace_2sp_Cons_hd: "\<exists>t. replace_2sp (c # s) = c # t"
  by (cases s) auto

lemma replace_2sp_Nil_iff: "(replace_2sp s = []) = (s = [])"
  by (cases s rule: replace_2sp.cases) auto

lemma hd_replace_2sp: "hd (replace_2sp s) = hd s"
  by (cases s rule: replace_2sp.cases) auto

lemma last_replace_2sp: "s \<noteq> [] \<Longrightarrow> last (replace_2sp s) = last s"
  by (induction s rule: replace_2sp.induct) (auto simp: replace_2sp_Nil_iff)

lemma upper_replace_2sp: "upper (replace_2sp s) = replace_2sp (upper s)"
  by (induction s rule: replace_2sp.induct) (auto simp: upper_def upper_char_eq_space)

lemma upper_idem: "upper (upper s) = upper s"
  by (simp add: upper_def upper_char_idem)

lemma list_all_space_replace_2sp: "list_all is_space (replace_2sp s) = list_all is_space s"
  by (induction s rule: replace_2sp.induct) (auto simp: is_space_space)

lemma dropWhile_space_replace_2sp:
  "dropWhile is_space (replace_2sp s) = replace_2sp (dropWhile is_space s)"
  by (induction s rule: replace_2sp.induct) (auto simp: is_space_space)

text \<open>Text with no whitespace at either end is what \<open>strip\<close> returns and leaves alone.\<close>

lemma strip_fixed:
  "s = [] \<or> (\<not> is_space (hd s) \<and> \<not> is_space (last s)) \<Longrightarrow> strip s = s"
proof (cases "s = []")
  case True
  then show ?thesis by (simp add: strip_def)
next
  case False
  assume "s = [] \<or> (\<not> is_space (hd s) \<and> \<not> is_space (last s))"
  with False have h: "\<not> is_space (hd s)" and l: "\<not> is_space (last s)"
    by simp_all
  from h have a: "dropWhile is_space s = s"
    by (simp add: dropWhile_eq_self_iff)
  from l have "dropWhile is_space (rev s) = rev s"
    by (simp add: dropWhile_eq_self_iff hd_rev)
  with a show ?thesis
    by (simp add: strip_def)
qed

lemma last_dropWhile_nonempty: "dropWhile P xs \<noteq> [] \<Longrightarrow> last (dropWhile P xs) = last xs"
  by (induction xs) (auto split: if_splits)

lemma strip_ends:
  "strip s = [] \<or> (\<not> is_space (hd (strip s)) \<and> \<not> is_space (last (strip s)))"
proof (cases "strip s = []")
  case True
  then show ?thesis by simp
next
  case False
  let ?t = "dropWhile is_space s"
  let ?w = "dropWhile is_space (rev ?t)"
  from False have w: "?w \<noteq> []"
    by (simp add: strip_def)
  then have t: "?t \<noteq> []"
    by (cases "?t = []") simp_all
  have "last (strip s) = hd ?w"
    by (simp add: strip_def last_rev)
  moreover have "\<not> is_space (hd ?w)"
    using w by (rule hd_dropWhile)
  moreover have "hd (strip s) = last ?w"
    by (simp add: strip_def hd_rev)
  moreover have "last ?w = last (rev ?t)"
    using w by (rule last_dropWhile_nonempty)
  moreover have "last (rev ?t) = hd ?t"
    by (simp add: last_rev)
  moreover have "\<not> is_space (hd ?t)"
    using t by (rule hd_dropWhile)
  ultimately show ?thesis
    by simp
qed

lemma strip_strip: "strip (strip s) = strip s"
  by (rule strip_fixed) (rule strip_ends)

lemma normalise_ends:
  "normalise s = [] \<or> (\<not> is_space (hd (normalise s)) \<and> \<not> is_space (last (normalise s)))"
proof (cases "strip s = []")
  case True
  then show ?thesis by (simp add: normalise_def upper_def)
next
  case False
  with strip_ends [of s]
  have h: "\<not> is_space (hd (strip s))" and l: "\<not> is_space (last (strip s))"
    by simp_all
  from False have u: "upper (strip s) \<noteq> []"
    by (simp add: upper_def)
  have "hd (normalise s) = upper_char (hd (strip s))"
    using False by (simp add: normalise_def hd_replace_2sp upper_def hd_map)
  moreover have "last (normalise s) = upper_char (last (strip s))"
    using False u by (simp add: normalise_def last_replace_2sp) (simp add: upper_def last_map)
  ultimately show ?thesis
    using h l by (simp add: is_space_upper_char)
qed

lemma upper_normalise: "upper (normalise s) = normalise s"
  by (simp add: normalise_def upper_replace_2sp upper_idem)

text \<open>On text that is stripped and in upper case, a further normalisation only runs the
  replacement again.\<close>

lemma normalise_clean:
  assumes "s = [] \<or> (\<not> is_space (hd s) \<and> \<not> is_space (last s))" and "upper s = s"
  shows "normalise s = replace_2sp s"
  using strip_fixed [OF assms(1)] assms(2) by (simp add: normalise_def)

lemma replace_2sp_ends:
  assumes "s = [] \<or> (\<not> is_space (hd s) \<and> \<not> is_space (last s))"
  shows "replace_2sp s = [] \<or>
         (\<not> is_space (hd (replace_2sp s)) \<and> \<not> is_space (last (replace_2sp s)))"
  using assms by (cases "s = []") (simp_all add: hd_replace_2sp last_replace_2sp)

lemma normalise_normalise: "normalise (normalise s) = replace_2sp (normalise s)"
  by (rule normalise_clean) (rule normalise_ends upper_normalise)+

lemma normalise_normalise_normalise:
  "normalise (normalise (normalise s)) = replace_2sp (replace_2sp (normalise s))"
proof -
  have "normalise (replace_2sp (normalise s)) = replace_2sp (replace_2sp (normalise s))"
  proof (rule normalise_clean)
    show "replace_2sp (normalise s) = [] \<or>
          (\<not> is_space (hd (replace_2sp (normalise s))) \<and>
           \<not> is_space (last (replace_2sp (normalise s))))"
      by (rule replace_2sp_ends) (rule normalise_ends)
    show "upper (replace_2sp (normalise s)) = replace_2sp (normalise s)"
      by (simp add: upper_replace_2sp upper_normalise)
  qed
  then show ?thesis
    by (simp add: normalise_normalise)
qed

section \<open>Postal locator: matching and errors\<close>

lemma consume_replace_2sp:
  assumes P: "\<And>c. P c \<Longrightarrow> c \<noteq> CHR '' ''"
  shows "consume P k (replace_2sp s) = map_option (\<lambda>(m, r). (m, replace_2sp r)) (consume P k s)"
proof (induction k arbitrary: s)
  case 0
  show ?case by simp
next
  case (Suc k)
  show ?case
  proof (cases s)
    case Nil
    then show ?thesis by simp
  next
    case (Cons c t)
    show ?thesis
    proof (cases "P c")
      case True
      then have "replace_2sp (c # t) = c # replace_2sp t"
        using P by (simp add: replace_2sp_Cons_other)
      then show ?thesis
        using True Cons Suc.IH [of t]
        by (simp add: option.map_comp comp_def split_def)
    next
      case False
      obtain t' where "replace_2sp (c # t) = c # t'"
        using replace_2sp_Cons_hd by blast
      then show ?thesis
        using False Cons by simp
    qed
  qed
qed

lemma postcode_try_replace_2sp: "postcode_try i j k (replace_2sp s) = postcode_try i j k s"
  by (simp add: postcode_try_def dropWhile_space_replace_2sp
      consume_replace_2sp [of is_letter, OF is_letter_not_space]
      consume_replace_2sp [of is_digit, OF is_digit_not_space]
      list_all_space_replace_2sp split: option.splits)

lemma POSTCODE_RE_match_replace_2sp: "POSTCODE_RE_match (replace_2sp s) = POSTCODE_RE_match s"
  by (simp only: POSTCODE_RE_match_def postcode_try_replace_2sp)

lemma inward_at_shape:
  "inward_at p s \<Longrightarrow> \<exists>d a b t. s = d # a # b # t \<and> is_digit d \<and> is_upper a \<and> is_upper b"
  by (cases "(p, s)" rule: inward_at.cases) auto

lemma inward_at_replace_2sp: "inward_at p (replace_2sp s) = inward_at p s"
proof (cases "inward_at p s \<or> inward_at p (replace_2sp s)")
  case False
  then show ?thesis by blast
next
  case True
  have "\<exists>d a b t. s = d # a # b # t \<and> is_digit d \<and> is_upper a \<and> is_upper b"
  proof (cases "inward_at p s")
    case True
    then show ?thesis by (rule inward_at_shape)
  next
    case False
    with True have "inward_at p (replace_2sp s)" by simp
    then obtain d a b t where r: "replace_2sp s = d # a # b # t"
      and d: "is_digit d" and a: "is_upper a" and b: "is_upper b"
      using inward_at_shape by blast
    from r obtain s1 where s: "s = d # s1"
      using hd_replace_2sp [of s] by (cases s) auto
    with r d have r1: "replace_2sp s1 = a # b # t"
      by (simp add: replace_2sp_Cons_other is_digit_not_space)
    then obtain s2 where s1: "s1 = a # s2"
      using hd_replace_2sp [of s1] by (cases s1) auto
    with r1 a have r2: "replace_2sp s2 = b # t"
      by (simp add: replace_2sp_Cons_other is_upper_not_space)
    then obtain s3 where s2: "s2 = b # s3"
      using hd_replace_2sp [of s2] by (cases s2) auto
    show ?thesis
      using s s1 s2 d a b by blast
  qed
  then obtain d a b t where s: "s = d # a # b # t"
    and d: "is_digit d" and a: "is_upper a" and b: "is_upper b"
    by blast
  have r: "replace_2sp s = d # a # b # replace_2sp t"
    using d a b by (simp add: s replace_2sp_Cons_other is_digit_not_space is_upper_not_space)
  have "(case replace_2sp t of [] \<Rightarrow> None | c # _ \<Rightarrow> Some c) =
        (case t of [] \<Rightarrow> None | c # _ \<Rightarrow> Some c)"
    by (cases t rule: replace_2sp.cases) auto
  then show ?thesis
    by (simp add: r) (simp add: s)
qed

lemma inward_search_replace_2sp: "inward_search p (replace_2sp s) = inward_search p s"
proof (induction s arbitrary: p rule: replace_2sp.induct)
  case (1 a b s)
  show ?case
  proof (cases "a = CHR '' '' \<and> b = CHR '' ''")
    case True
    have sp: "\<not> inward_at q (CHR '' '' # u)" for q u
      using inward_at_shape [of q "CHR '' '' # u"] is_digit_not_space by auto
    have "inward_search p (replace_2sp (a # b # s)) = inward_search (Some CHR '' '') (replace_2sp s)"
      using True sp by simp
    also have "\<dots> = inward_search (Some CHR '' '') s"
      using True by (simp add: "1.IH"(1))
    also have "\<dots> = inward_search p (a # b # s)"
      using True sp by simp
    finally show ?thesis .
  next
    case False
    then have r: "replace_2sp (a # b # s) = a # replace_2sp (b # s)"
      by auto
    have "inward_at p (a # replace_2sp (b # s)) = inward_at p (a # b # s)"
      using inward_at_replace_2sp [of p "a # b # s"] by (simp only: r)
    then show ?thesis
      using False "1.IH"(2) [of "Some a"] by (simp only: r inward_search.simps) simp
  qed
qed simp_all


lemma consume_length: "consume P k s = Some (m, r) \<Longrightarrow> length m = k"
proof (induction k arbitrary: s m)
  case 0
  then show ?case by simp
next
  case (Suc k)
  then show ?case
    by (cases s) (auto split: if_splits)
qed

lemma first_some_SomeD: "first_some f xs = Some y \<Longrightarrow> \<exists>x \<in> set xs. f x = Some y"
  by (induction xs) (auto split: option.splits)

lemma postcode_try_nonempty: "postcode_try i j k s = Some d \<Longrightarrow> 0 < i \<Longrightarrow> d \<noteq> []"
  by (auto simp: postcode_try_def split: option.splits if_splits dest!: consume_length)

lemma POSTCODE_RE_match_nonempty: "POSTCODE_RE_match s = Some d \<Longrightarrow> d \<noteq> []"
proof -
  assume "POSTCODE_RE_match s = Some d"
  then obtain x where x: "x \<in> set [(2, 2, 1), (2, 2, 0), (2, 1, 1), (2, 1, 0), (1, 2, 1),
        (1, 2, 0), (1, 1, 1), (1, 1, 0 :: nat) :: nat \<times> nat \<times> nat]"
    and t: "(case x of (i, j, k) \<Rightarrow> postcode_try i j k s) = Some d"
    unfolding POSTCODE_RE_match_def by (blast dest: first_some_SomeD)
  obtain i j k where ijk: "x = (i, j, k)"
    by (cases x) auto
  with x have "0 < i" by auto
  with t ijk show ?thesis
    by (auto dest: postcode_try_nonempty)
qed

lemma POSTCODE_RE_match_Nil: "POSTCODE_RE_match [] = None"
  by code_simp

lemma normalise_strip: "normalise (strip s) = normalise s"
  by (simp add: normalise_def strip_strip)

lemma normalise_blank: "strip s = [] \<Longrightarrow> normalise s = []"
  by (simp add: normalise_def upper_def)

lemma parse_district_strip: "parse_district (strip s) = parse_district s"
  by (simp add: parse_district_def normalise_strip)

lemma derive_sector_strip:
  "derive_sector_from_postcode (strip s) d = derive_sector_from_postcode s d"
  by (simp add: derive_sector_from_postcode_def normalise_strip)

lemma parse_district_nonblank: "parse_district s = Some d \<Longrightarrow> strip s \<noteq> [] \<and> d \<noteq> []"
proof
  assume p: "parse_district s = Some d"
  show "strip s \<noteq> []"
  proof
    assume "strip s = []"
    then have "parse_district s = None"
      by (simp add: parse_district_def normalise_blank POSTCODE_RE_match_Nil)
    with p show False by simp
  qed
  from p show "d \<noteq> []"
    by (simp add: parse_district_def POSTCODE_RE_match_nonempty)
qed

lemma search_locate_Some:
  "search_locate (Some s) =
     (if strip s = [] then Inl EmptyInput
      else (case parse_district s of
        None \<Rightarrow> Inl InvalidFormat
      | Some d \<Rightarrow>
          (case derive_sector_from_postcode s d of
             None \<Rightarrow> Inl SectorDerivationFailed
           | Some sector \<Rightarrow> Inr (strip s, d, sector))))"
proof -
  have "d \<noteq> []" if "parse_district s = Some d" for d
    using that parse_district_nonblank by blast
  moreover have "sector \<noteq> []" if "derive_sector_from_postcode s d = Some sector" for d sector
    using that by (auto simp: derive_sector_from_postcode_def split: option.splits)
  ultimately show ?thesis
    by (auto simp: search_locate_def Let_def parse_district_strip derive_sector_strip
        split: option.splits)
qed

lemma locate_examples:
  "parse_district ''E149AZ'' = Some ''E14''"
  "derive_sector_from_postcode ''E149AZ'' ''E14'' = None"
  "search_locate (Some ''E149AZ'') = Inl SectorDerivationFailed"
  "parse_district ''E14 9AZ'' = Some ''E14''"
  "derive_sector_from_postcode ''E14 9AZ'' ''E14'' = Some ''E14 9''"
  "parse_district ''ZZZZ'' = None"
  "strip ''ZZZZ'' = ''ZZZZ''"
  "strip ''  '' = []"
  "parse_district '' '' = None"
  "search_locate (Some '' '') = Inl EmptyInput"
  by code_simp+

text \<open>
  Claim C7, as amended. A query with no postcode parameter, or whose text is empty or only
  whitespace, gets the error EmptyInput. A text with some other character that fails the
  match of \<^verbatim>\<open>POSTCODE_RE\<close> gets InvalidFormat. A text that matches, and in which the
  search for the inward digit finds nothing, gets the distinct error
  SectorDerivationFailed; in every other case the query succeeds with the district and the
  sector. The text \<^verbatim>\<open>E149AZ\<close> matches with district \<^verbatim>\<open>E14\<close> and its sector derivation
  fails, so the two failures are different things.
\<close>

theorem search_locate_errors:
  "search_locate None = Inl EmptyInput
   \<and> (strip s = [] \<longrightarrow> search_locate (Some s) = Inl EmptyInput)
   \<and> (strip s \<noteq> [] \<and> parse_district s = None \<longrightarrow> search_locate (Some s) = Inl InvalidFormat)
   \<and> (parse_district s = Some d \<and> derive_sector_from_postcode s d = None \<longrightarrow>
        search_locate (Some s) = Inl SectorDerivationFailed)
   \<and> (parse_district s = Some d \<and> derive_sector_from_postcode s d = Some sector \<longrightarrow>
        search_locate (Some s) = Inr (strip s, d, sector))
   \<and> parse_district ''E149AZ'' = Some ''E14''
   \<and> derive_sector_from_postcode ''E149AZ'' ''E14'' = None
   \<and> search_locate (Some ''E149AZ'') = Inl SectorDerivationFailed
   \<and> InvalidFormat \<noteq> SectorDerivationFailed"
proof -
  have a: "search_locate None = Inl EmptyInput"
    by (simp add: search_locate_def strip_def)
  have b: "strip s = [] \<longrightarrow> search_locate (Some s) = Inl EmptyInput"
    by (simp add: search_locate_Some)
  have c: "strip s \<noteq> [] \<and> parse_district s = None \<longrightarrow>
        search_locate (Some s) = Inl InvalidFormat"
    by (simp add: search_locate_Some)
  have d: "parse_district s = Some d \<and> derive_sector_from_postcode s d = None \<longrightarrow>
        search_locate (Some s) = Inl SectorDerivationFailed"
    using parse_district_nonblank [of s d] by (simp add: search_locate_Some)
  have e: "parse_district s = Some d \<and> derive_sector_from_postcode s d = Some sector \<longrightarrow>
        search_locate (Some s) = Inr (strip s, d, sector)"
    using parse_district_nonblank [of s d] by (simp add: search_locate_Some)
  have f: "InvalidFormat \<noteq> SectorDerivationFailed"
    by simp
  show ?thesis
    by (intro conjI) (rule a b c d e f locate_examples)+
qed

theorem search_locate_errors_witness:
  "strip ''  '' = [] \<and> search_locate (Some ''  '') = Inl EmptyInput
   \<and> strip ''ZZZZ'' \<noteq> [] \<and> parse_district ''ZZZZ'' = None
   \<and> search_locate (Some ''ZZZZ'') = Inl InvalidFormat
   \<and> parse_district ''E14 9AZ'' = Some ''E14''
   \<and> derive_sector_from_postcode ''E14 9AZ'' ''E14'' = Some ''E14 9''
   \<and> search_locate (Some ''E14 9AZ'') = Inr (strip ''E14 9AZ'', ''E14'', ''E14 9'')"
  using search_locate_errors [of "''  ''"] search_locate_errors [of "''ZZZZ''"]
    search_locate_errors [of "''E14 9AZ''" "''E14''" "''E14 9''"] locate_examples
  by simp

text \<open>
  The claim as written gives InvalidFormat to every non-empty input that fails the match.
  A single space is not empty and fails the match; \<^verbatim>\<open>search\<close> strips it first and answers
  EmptyInput.
\<close>

theorem search_locate_blank_counterexample:
  "'' '' \<noteq> [] \<and> parse_district '' '' = None \<and> search_locate (Some '' '') = Inl EmptyInput
   \<and> search_locate (Some '' '') \<noteq> Inl InvalidFormat"
  by (simp add: locate_examples)

lemma normalise_twice_example:
  "normalise ''e14    9az'' = ''E14  9AZ''"
  "normalise (normalise ''e14    9az'') = ''E14 9AZ''"
  "parse_district ''e14    9az'' = Some ''E14''"
  "derive_sector_from_postcode ''e14    9az'' ''E14'' = Some ''E14 9''"
  by code_simp+

text \<open>
  Claim C9. For every text \<open>s\<close>, and so for every text of the accepted shape,
  \<open>parse_district\<close> and \<open>derive_sector_from_postcode\<close> give the same district and sector
  for \<open>s\<close>, for \<open>s\<close> normalised once and for \<open>s\<close> normalised twice. Both are functions, so
  the result is determined by the text. The normalisation itself need not be idempotent:
  four spaces become two, and two become one the next time.
\<close>

theorem derive_sector_normalisation_invariant:
  "parse_district (normalise s) = parse_district s
   \<and> parse_district (normalise (normalise s)) = parse_district s
   \<and> derive_sector_from_postcode (normalise s) d = derive_sector_from_postcode s d
   \<and> derive_sector_from_postcode (normalise (normalise s)) d = derive_sector_from_postcode s d
   \<and> normalise (normalise ''e14    9az'') \<noteq> normalise ''e14    9az''
   \<and> parse_district ''e14    9az'' = Some ''E14''
   \<and> derive_sector_from_postcode ''e14    9az'' ''E14'' = Some ''E14 9''"
proof -
  have ex: "normalise (normalise ''e14    9az'') \<noteq> normalise ''e14    9az''"
    by (simp only: normalise_twice_example(2)) (simp only: normalise_twice_example(1), simp)
  have m1: "POSTCODE_RE_match (normalise (normalise s)) = POSTCODE_RE_match (normalise s)"
    by (simp only: normalise_normalise POSTCODE_RE_match_replace_2sp)
  have m2: "POSTCODE_RE_match (normalise (normalise (normalise s))) =
            POSTCODE_RE_match (normalise s)"
    by (simp only: normalise_normalise_normalise POSTCODE_RE_match_replace_2sp)
  have i1: "inward_search None (normalise (normalise s)) = inward_search None (normalise s)"
    by (simp only: normalise_normalise inward_search_replace_2sp)
  have i2: "inward_search None (normalise (normalise (normalise s))) =
            inward_search None (normalise s)"
    by (simp only: normalise_normalise_normalise inward_search_replace_2sp)
  have inv: "parse_district (normalise s) = parse_district s
     \<and> parse_district (normalise (normalise s)) = parse_district s
     \<and> derive_sector_from_postcode (normalise s) d = derive_sector_from_postcode s d
     \<and> derive_sector_from_postcode (normalise (normalise s)) d =
         derive_sector_from_postcode s d"
    by (simp only: parse_district_def derive_sector_from_postcode_def m1 m2 i1 i2)
  show ?thesis
    using inv ex normalise_twice_example(3,4) by blast
qed

end
